theory Spec2Isabelle
  imports Complex_Main
begin

section \<open>JavaScript strings and \<open>parseInt\<close>\<close>

text \<open>
  A JavaScript string is a sequence of UTF-16 code units; a code unit is modelled by its
  number, an integer. \<open>js\<close> turns an ASCII literal into such a sequence.
\<close>

type_synonym jsstring = "int list"

definition js :: "string \<Rightarrow> jsstring" where
  "js s = map of_char s"

text \<open>
  The code units that \<open>String.prototype.trim\<close> and \<open>parseInt\<close> skip: the
  WhiteSpace and LineTerminator productions of ECMAScript (TAB, LF, VT, FF, CR, SP, NBSP,
  the Unicode space separators, LS, PS and the byte order mark).
\<close>

definition isWhiteSpace :: "int \<Rightarrow> bool" where
  "isWhiteSpace c \<longleftrightarrow>
     (9 \<le> c \<and> c \<le> 13) \<or> c = 32 \<or> c = 160 \<or> c = 5760 \<or> (8192 \<le> c \<and> c \<le> 8202) \<or>
     c = 8232 \<or> c = 8233 \<or> c = 8239 \<or> c = 8287 \<or> c = 12288 \<or> c = 65279"

definition trim :: "jsstring \<Rightarrow> jsstring" where
  "trim s = rev (dropWhile isWhiteSpace (rev (dropWhile isWhiteSpace s)))"

text \<open>
  \<open>s.split(sep)\<close> for a separator of one code unit: the pieces between the separators,
  one more piece than there are separators (so the result is never empty).
\<close>

fun split :: "int \<Rightarrow> jsstring \<Rightarrow> jsstring list" where
  "split sep [] = [[]]"
| "split sep (c # cs) =
     (if c = sep then [] # split sep cs
      else (case split sep cs of
              [] \<Rightarrow> [[c]]
            | piece # pieces \<Rightarrow> (c # piece) # pieces))"

definition includes_unit :: "jsstring \<Rightarrow> int \<Rightarrow> bool" where
  "includes_unit s c \<longleftrightarrow> c \<in> set s"

text \<open>The value of a code unit as a digit: \<open>0-9\<close>, then \<open>a-z\<close> and \<open>A-Z\<close> for ten and up.\<close>

definition digitValue :: "int \<Rightarrow> int option" where
  "digitValue c =
     (if 48 \<le> c \<and> c \<le> 57 then Some (c - 48)
      else if 97 \<le> c \<and> c \<le> 122 then Some (c - 87)
      else if 65 \<le> c \<and> c \<le> 90 then Some (c - 55)
      else None)"

definition isRadixDigit :: "int \<Rightarrow> int \<Rightarrow> bool" where
  "isRadixDigit radix c \<longleftrightarrow> (case digitValue c of None \<Rightarrow> False | Some d \<Rightarrow> d < radix)"

definition digitsValue :: "int \<Rightarrow> jsstring \<Rightarrow> int" where
  "digitsValue radix z = foldl (\<lambda>acc c. acc * radix + (case digitValue c of None \<Rightarrow> 0 | Some d \<Rightarrow> d)) 0 z"

text \<open>
  \<open>parseInt(s)\<close> with no radix argument, as the source calls it: leading white space is
  skipped, one sign is read, a \<open>0x\<close> or \<open>0X\<close> prefix selects radix 16 (radix 10 otherwise),
  and the longest prefix of digits is the number; what follows the digits is ignored. With
  no digit the result is \<open>NaN\<close>, which is \<open>None\<close> here. The result is a mathematical
  integer: the source's Number is an IEEE double, which holds every integer below \<open>2^53\<close>
  exactly and rounds a larger one to a value that is still at least \<open>2^53\<close>, so every
  comparison with a page count comes out the same.
\<close>

definition parseInt :: "jsstring \<Rightarrow> int option" where
  "parseInt s =
     (let s1 = dropWhile isWhiteSpace s;
          negative = (case s1 of [] \<Rightarrow> False | c # _ \<Rightarrow> c = 45);
          s2 = (case s1 of [] \<Rightarrow> [] | c # cs \<Rightarrow> if c = 43 \<or> c = 45 then cs else s1);
          hex = (case s2 of c0 # c1 # _ \<Rightarrow> c0 = 48 \<and> (c1 = 120 \<or> c1 = 88) | _ \<Rightarrow> False);
          radix = (if hex then 16 else 10);
          s3 = (if hex then drop 2 s2 else s2);
          z = takeWhile (isRadixDigit radix) s3
      in if z = [] then None
         else Some ((if negative then - 1 else 1) * digitsValue radix z))"

section \<open>Page ranges (\<open>PDFProcessor.parsePageRange\<close>)\<close>

text \<open>
  The loop \<open>for (let i = start; i <= hi; i++) { if (i >= 1) pages.push(i); }\<close> with
  \<open>hi = Math.min(end, totalPages)\<close>.
\<close>

function rangeLoop :: "int \<Rightarrow> int \<Rightarrow> int list \<Rightarrow> int list" where
  "rangeLoop i hi pages =
     (if i \<le> hi then rangeLoop (i + 1) hi (if i \<ge> 1 then pages @ [i] else pages)
      else pages)"
  by pat_completeness auto
termination
  by (relation "measure (\<lambda>(i, hi, pages). nat (hi + 1 - i))") auto

declare rangeLoop.simps [simp del]

text \<open>
  The body of \<open>for (const part of parts)\<close>: what one (already trimmed) token does to
  \<open>pages\<close>. A comparison with \<open>NaN\<close> is false and \<open>Math.min\<close> of \<open>NaN\<close> is \<open>NaN\<close>,
  so a pair with an unreadable start or end runs the loop zero times. The destructuring
  \<open>[start, end]\<close> reads the first two components and ignores the others.
\<close>

definition parsePart :: "int \<Rightarrow> int list \<Rightarrow> jsstring \<Rightarrow> int list" where
  "parsePart totalPages pages part =
     (if includes_unit part 45 then
        (let nums = map (\<lambda>n. parseInt (trim n)) (split 45 part);
             start = (case nums of [] \<Rightarrow> None | a # _ \<Rightarrow> a);
             end' = (case nums of _ # b # _ \<Rightarrow> b | _ \<Rightarrow> None)
         in case (start, end') of
              (Some s, Some e) \<Rightarrow> rangeLoop s (min e totalPages) pages
            | _ \<Rightarrow> pages)
      else
        (case parseInt part of
           None \<Rightarrow> pages
         | Some pageNum \<Rightarrow>
             if pageNum \<ge> 1 \<and> pageNum \<le> totalPages then pages @ [pageNum] else pages))"

text \<open>\<open>[...new Set(pages)]\<close>: the elements in the order of their first occurrence.\<close>

definition setSpread :: "int list \<Rightarrow> int list" where
  "setSpread pages = foldl (\<lambda>seen p. if p \<in> set seen then seen else seen @ [p]) [] pages"

definition parsePageRange :: "jsstring \<Rightarrow> int \<Rightarrow> int list" where
  "parsePageRange rangeStr totalPages =
     (let parts = map trim (split 44 rangeStr);
          pages = foldl (parsePart totalPages) [] parts
      in sort (setSpread pages))"

section \<open>Documents and page selection\<close>

text \<open>
  What the model keeps of a PDF page: its size in points, a token for what it shows, and
  whether its page dictionary has a \<open>/Contents\<close> entry (a page without one shows nothing;
  it can be copied, but \<open>embedPdf\<close> refuses it). A loaded document is the list of its pages.
\<close>

record PdfPage =
  width :: real
  height :: real
  content :: int
  hasContents :: bool

type_synonym PdfDocument = "PdfPage list"

text \<open>The union \<open>'odd' | 'even'\<close>, used for \<open>pageType\<close> and for \<open>currentStep\<close>.\<close>

datatype Parity = Odd | Even

datatype Layout = OneUp | TwoUp | FourUp

text \<open>The argument of \<open>newPage.drawPage(embeddedPage, {x, y, width, height})\<close>.\<close>

record Placement =
  embeddedPage :: PdfPage
  draw_x :: real
  draw_y :: real
  draw_width :: real
  draw_height :: real

text \<open>An output sheet is the list of what was drawn on it, in the order of drawing.\<close>

type_synonym Sheet = "Placement list"

text \<open>
  A page of a composed document: the size it was added with and what was drawn on it.
\<close>

record ComposedPage =
  pageWidth :: real
  pageHeight :: real
  drawn :: Sheet

text \<open>What the source can throw, as values.\<close>

datatype Failure = LoadFailed | PageIndexOutOfRange | MissingContents

text \<open>
  The world outside the process: which uploads exist, what reading and parsing a file
  gives (\<open>None\<close> when \<open>fs.readFile\<close> or \<open>PDFDocument.load\<close> throws), and the spooler
  client \<open>cupsClient.printFile(path, printerName, jobName, copies)\<close>, which answers with
  a spooler job id or throws (\<open>None\<close>). The file to print is the upload itself, or
  a generated file, given by its content: copied pages, or N-up sheets.
\<close>

datatype PrintSource =
  UploadedFile jsstring | ExtractedFile PdfDocument | NUpFile "ComposedPage list"

record World =
  pathExists :: "jsstring \<Rightarrow> bool"
  loadPdf :: "jsstring \<Rightarrow> PdfDocument option"
  printFile :: "PrintSource \<Rightarrow> jsstring \<Rightarrow> jsstring \<Rightarrow> int \<Rightarrow> int option"

definition getPageCount :: "World \<Rightarrow> jsstring \<Rightarrow> Failure + int" where
  "getPageCount w pdfPath =
     (case loadPdf w pdfPath of
        None \<Rightarrow> Inl LoadFailed
      | Some pdfDoc \<Rightarrow> Inr (int (length pdfDoc)))"

text \<open>The remainder operator \<open>%\<close> of JavaScript takes the sign of the dividend.\<close>

definition js_rem :: "int \<Rightarrow> int \<Rightarrow> int" where
  "js_rem a b = sgn a * (\<bar>a\<bar> mod \<bar>b\<bar>)"

text \<open>
  \<open>if (pageRange) parsePageRange(pageRange, totalPages) else Array.from(...)\<close>: an absent
  and an empty \<open>pageRange\<close> are both falsy and give every page \<open>1..totalPages\<close>.
\<close>

definition pagesToProcess :: "int \<Rightarrow> jsstring option \<Rightarrow> int list" where
  "pagesToProcess totalPages pageRange =
     (case pageRange of
        None \<Rightarrow> [1..totalPages]
      | Some r \<Rightarrow> if r \<noteq> [] then parsePageRange r totalPages else [1..totalPages])"

definition filteredPages :: "int \<Rightarrow> Parity \<Rightarrow> jsstring option \<Rightarrow> int list" where
  "filteredPages totalPages pageType pageRange =
     filter (\<lambda>pageNum. if pageType = Odd then js_rem pageNum 2 = 1 else js_rem pageNum 2 = 0)
       (pagesToProcess totalPages pageRange)"

text \<open>
  \<open>for (const pageNum of pages) { copyPages(pdfDoc, [pageNum - 1]); addPage(...) }\<close>;
  \<open>copyPages\<close> throws on an index that is not a page of the document.
\<close>

fun copyPagesLoop :: "PdfDocument \<Rightarrow> int list \<Rightarrow> PdfDocument \<Rightarrow> Failure + PdfDocument" where
  "copyPagesLoop pdfDoc [] newPdfDoc = Inr newPdfDoc"
| "copyPagesLoop pdfDoc (pageNum # rest) newPdfDoc =
     (if 0 \<le> pageNum - 1 \<and> pageNum - 1 < int (length pdfDoc)
      then copyPagesLoop pdfDoc rest (newPdfDoc @ [pdfDoc ! nat (pageNum - 1)])
      else Inl PageIndexOutOfRange)"

text \<open>
  \<open>newPdfDoc.save()\<close>, called with no options: the PDF library adds one blank page of
  its default size (A4 upright, 595.28 by 841.89 points) to a document that has no page,
  and writes every other document as it is. The blank page has no \<open>/Contents\<close> entry.
\<close>

definition defaultPage :: PdfPage where
  "defaultPage = \<lparr> width = 595.28, height = 841.89, content = 0, hasContents = False \<rparr>"

definition save :: "PdfDocument \<Rightarrow> PdfDocument" where
  "save newPdfDoc = (case newPdfDoc of [] \<Rightarrow> [defaultPage] | _ # _ \<Rightarrow> newPdfDoc)"

text \<open>
  The two extractions. Each returns the path of a new file in the temp directory; here it
  returns the pages of that file, which are the pages of the saved document. The name of
  the file (the base name of the input, the operation and the clock) and the failure of
  the write are not modelled.
\<close>

definition extractOddEvenPages ::
    "World \<Rightarrow> jsstring \<Rightarrow> Parity \<Rightarrow> jsstring option \<Rightarrow> Failure + PdfDocument" where
  "extractOddEvenPages w inputPath pageType pageRange =
     (case loadPdf w inputPath of
        None \<Rightarrow> Inl LoadFailed
      | Some pdfDoc \<Rightarrow>
          (case copyPagesLoop pdfDoc (filteredPages (int (length pdfDoc)) pageType pageRange) []
           of Inl e \<Rightarrow> Inl e
            | Inr newPdfDoc \<Rightarrow> Inr (save newPdfDoc)))"

definition extractPageRange :: "World \<Rightarrow> jsstring \<Rightarrow> jsstring \<Rightarrow> Failure + PdfDocument" where
  "extractPageRange w inputPath pageRange =
     (case loadPdf w inputPath of
        None \<Rightarrow> Inl LoadFailed
      | Some pdfDoc \<Rightarrow>
          (case copyPagesLoop pdfDoc (parsePageRange pageRange (int (length pdfDoc))) []
           of Inl e \<Rightarrow> Inl e
            | Inr newPdfDoc \<Rightarrow> Inr (save newPdfDoc)))"

section \<open>N-up layout (\<open>PDFProcessor.createNUpLayout\<close>)\<close>

text \<open>
  Lengths are in points. The source computes them in IEEE doubles; here they are real
  numbers, so the statements about the geometry are statements about the formulas of the
  source, without the rounding of the machine arithmetic.
\<close>

definition pagesPerSheet :: "Layout \<Rightarrow> nat" where
  "pagesPerSheet layout = (if layout = TwoUp then 2 else 4)"

definition sheetWidth :: real where
  "sheetWidth = 842"

definition sheetHeight :: real where
  "sheetHeight = 595"

definition cols :: "Layout \<Rightarrow> nat" where
  "cols layout = (if layout = TwoUp then 2 else 2)"

definition rows :: "Layout \<Rightarrow> nat" where
  "rows layout = (if layout = TwoUp then 1 else 2)"

definition cellWidth :: "Layout \<Rightarrow> real" where
  "cellWidth layout = sheetWidth / real (cols layout)"

definition cellHeight :: "Layout \<Rightarrow> real" where
  "cellHeight layout = sheetHeight / real (rows layout)"

text \<open>The body of the inner loop for position \<open>j\<close> on a sheet, once the page is embedded.\<close>

definition drawCell :: "Layout \<Rightarrow> PdfPage \<Rightarrow> nat \<Rightarrow> Placement" where
  "drawCell layout page j =
     (let col = j mod cols layout;
          row = j div cols layout;
          scale = min (cellWidth layout / width page) (cellHeight layout / height page) * 0.95;
          x = real col * cellWidth layout + (cellWidth layout - width page * scale) / 2;
          y = sheetHeight - (real row + 1) * cellHeight layout
                + (cellHeight layout - height page * scale) / 2
      in \<lparr> embeddedPage = page, draw_x = x, draw_y = y,
           draw_width = width page * scale, draw_height = height page * scale \<rparr>)"

text \<open>
  \<open>for (let j = 0; j < pagesPerSheet && i + j < pagesToProcess.length; j++)\<close>;
  \<open>embedPdf\<close> throws on an index that is not a page of the document, and on a page
  that has no \<open>/Contents\<close> entry.
\<close>

function cellLoop ::
    "Layout \<Rightarrow> PdfDocument \<Rightarrow> int list \<Rightarrow> nat \<Rightarrow> nat \<Rightarrow> Sheet \<Rightarrow> Failure + Sheet" where
  "cellLoop layout pdfDoc pages i j newPage =
     (if j < pagesPerSheet layout \<and> i + j < length pages then
        (let pageIndex = pages ! (i + j) - 1
         in if 0 \<le> pageIndex \<and> pageIndex < int (length pdfDoc)
            then if hasContents (pdfDoc ! nat pageIndex)
                 then cellLoop layout pdfDoc pages i (j + 1)
                        (newPage @ [drawCell layout (pdfDoc ! nat pageIndex) j])
                 else Inl MissingContents
            else Inl PageIndexOutOfRange)
      else Inr newPage)"
  by pat_completeness auto
termination
  by (relation "measure (\<lambda>(layout, pdfDoc, pages, i, j, newPage). pagesPerSheet layout - j)")
     auto

declare cellLoop.simps [simp del]

text \<open>\<open>for (let i = 0; i < pagesToProcess.length; i += pagesPerSheet)\<close>, one sheet a turn.\<close>

function sheetLoop ::
    "Layout \<Rightarrow> PdfDocument \<Rightarrow> int list \<Rightarrow> nat \<Rightarrow> Sheet list \<Rightarrow> Failure + Sheet list" where
  "sheetLoop layout pdfDoc pages i newPdfDoc =
     (if i < length pages then
        (case cellLoop layout pdfDoc pages i 0 [] of
           Inl e \<Rightarrow> Inl e
         | Inr newPage \<Rightarrow>
             sheetLoop layout pdfDoc pages (i + pagesPerSheet layout) (newPdfDoc @ [newPage]))
      else Inr newPdfDoc)"
  by pat_completeness auto
termination
  by (relation "measure (\<lambda>(layout, pdfDoc, pages, i, newPdfDoc). length pages - i)")
     (auto simp: pagesPerSheet_def)

declare sheetLoop.simps [simp del]

text \<open>
  A sheet as a page of the new document (\<open>addPage([sheetWidth, sheetHeight])\<close>), and
  \<open>newPdfDoc.save()\<close> on a composed document: as for the extractions, a document with no
  page gets one blank page of the default size.
\<close>

definition sheetPage :: "Sheet \<Rightarrow> ComposedPage" where
  "sheetPage sheet = \<lparr> pageWidth = sheetWidth, pageHeight = sheetHeight, drawn = sheet \<rparr>"

definition defaultComposedPage :: ComposedPage where
  "defaultComposedPage = \<lparr> pageWidth = 595.28, pageHeight = 841.89, drawn = [] \<rparr>"

definition saveComposed :: "ComposedPage list \<Rightarrow> ComposedPage list" where
  "saveComposed newPdfDoc =
     (case newPdfDoc of [] \<Rightarrow> [defaultComposedPage] | _ # _ \<Rightarrow> newPdfDoc)"

text \<open>
  The composition returns the pages of the file it has written: the sheets the loops
  have added, each with what was drawn on it, after \<open>save\<close>.
\<close>

definition createNUpLayout ::
    "World \<Rightarrow> jsstring \<Rightarrow> Layout \<Rightarrow> jsstring option \<Rightarrow> Failure + ComposedPage list" where
  "createNUpLayout w inputPath layout pageRange =
     (case loadPdf w inputPath of
        None \<Rightarrow> Inl LoadFailed
      | Some pdfDoc \<Rightarrow>
          (case sheetLoop layout pdfDoc (pagesToProcess (int (length pdfDoc)) pageRange) 0 []
           of Inl e \<Rightarrow> Inl e
            | Inr sheets \<Rightarrow> Inr (saveComposed (map sheetPage sheets))))"

section \<open>The print server (\<open>server.ts\<close>)\<close>

datatype JobStatus = Pending | Processing | Completed | Failed | AwaitingEvenPages

record PrintSettings =
  duplex :: bool
  layout :: Layout
  pageRange :: "jsstring option"
  copies :: "int option"

text \<open>
  The request body of \<open>POST /api/print\<close>. A missing \<open>filename\<close> is the empty string
  (both are falsy, and the handler rejects both before it uses the name).
\<close>

record PrintRequest =
  filename :: jsstring
  settings :: "PrintSettings option"
  printerName :: jsstring

record PrintJob =
  id' :: jsstring
  status :: JobStatus
  message :: "jsstring option"
  totalPages :: "int option"
  currentStep :: "Parity option"

text \<open>One successful call of \<open>cupsClient.printFile\<close>: what was handed to the spooler.\<close>

record Submission =
  document :: PrintSource
  printer :: jsstring
  jobName :: jsstring
  copiesSent :: int

text \<open>
  The state of the process: the table \<open>printJobs\<close>, and the submissions the spooler
  has accepted so far, oldest first.
\<close>

record Server =
  printJobs :: "jsstring \<rightharpoonup> PrintJob"
  spooled :: "Submission list"

text \<open>
  What a handler answers: \<open>res.json({jobId, cupsJobId, status})\<close>, or
  \<open>res.status(code).json({error})\<close>.
\<close>

datatype Response = Accepted jsstring int PrintJob | Rejected int jsstring

text \<open>\<open>copies || 1\<close>: an absent count and the count 0 are falsy.\<close>

definition copiesOrOne :: "int option \<Rightarrow> int" where
  "copiesOrOne c = (case c of None \<Rightarrow> 1 | Some n \<Rightarrow> if n = 0 then 1 else n)"

definition spool :: "Server \<Rightarrow> Submission \<Rightarrow> Server" where
  "spool srv sub = srv \<lparr> spooled := spooled srv @ [sub] \<rparr>"

definition setJob :: "Server \<Rightarrow> jsstring \<Rightarrow> PrintJob \<Rightarrow> Server" where
  "setJob srv jobId job = srv \<lparr> printJobs := (printJobs srv)(jobId \<mapsto> job) \<rparr>"

text \<open>A string that is truthy: present and not empty.\<close>

definition truthy :: "jsstring option \<Rightarrow> jsstring option" where
  "truthy v = (case v of None \<Rightarrow> None | Some r \<Rightarrow> if r = [] then None else Some r)"

definition layoutName :: "Layout \<Rightarrow> jsstring" where
  "layoutName l = (case l of OneUp \<Rightarrow> js ''1-up'' | TwoUp \<Rightarrow> js ''2-up'' | FourUp \<Rightarrow> js ''4-up'')"

text \<open>
  The first \<open>if\<close> chain of \<open>POST /api/print\<close>: the file to print and the job entry
  that is written once the file has been produced. When the processing throws, control
  leaves the chain before the entry is written.
\<close>

definition processBySettings ::
    "World \<Rightarrow> jsstring \<Rightarrow> jsstring \<Rightarrow> PrintSettings \<Rightarrow> Failure + (PrintSource \<times> PrintJob)" where
  "processBySettings w jobId file st =
     (if duplex st then
        (case extractOddEvenPages w file Odd (pageRange st) of
           Inl e \<Rightarrow> Inl e
         | Inr processed \<Rightarrow>
             Inr (ExtractedFile processed,
                  \<lparr> id' = jobId, status = Processing,
                    message = Some (js ''Printing odd pages...''),
                    totalPages = None, currentStep = Some Odd \<rparr>))
      else if layout st \<noteq> OneUp then
        (case createNUpLayout w file (layout st) (pageRange st) of
           Inl e \<Rightarrow> Inl e
         | Inr sheets \<Rightarrow>
             Inr (NUpFile sheets,
                  \<lparr> id' = jobId, status = Processing,
                    message = Some (js ''Creating '' @ layoutName (layout st) @ js '' layout...''),
                    totalPages = None, currentStep = None \<rparr>))
      else
        (case truthy (pageRange st) of
           Some r \<Rightarrow>
             (case extractPageRange w file r of
                Inl e \<Rightarrow> Inl e
              | Inr processed \<Rightarrow>
                  Inr (ExtractedFile processed,
                       \<lparr> id' = jobId, status = Processing,
                         message = Some (js ''Extracting page range...''),
                         totalPages = None, currentStep = None \<rparr>))
         | None \<Rightarrow>
             Inr (UploadedFile file,
                  \<lparr> id' = jobId, status = Processing,
                    message = Some (js ''Sending to printer...''),
                    totalPages = None, currentStep = None \<rparr>)))"

text \<open>
  \<open>POST /api/print\<close>. \<open>jobId\<close> is the identifier the handler makes from the clock and
  a random number. Every \<open>throw\<close> inside the \<open>try\<close> ends in the \<open>catch\<close>, which answers
  500 and touches nothing.
\<close>

definition printHandler :: "World \<Rightarrow> jsstring \<Rightarrow> PrintRequest \<Rightarrow> Server \<Rightarrow> Response \<times> Server" where
  "printHandler w jobId printRequest srv =
     (case settings printRequest of
        None \<Rightarrow> (Rejected 400 (js ''Missing required fields''), srv)
      | Some st \<Rightarrow>
          if filename printRequest = [] then
            (Rejected 400 (js ''Missing required fields''), srv)
          else if \<not> pathExists w (filename printRequest) then
            (Rejected 404 (js ''File not found''), srv)
          else
            (case processBySettings w jobId (filename printRequest) st of
               Inl e \<Rightarrow> (Rejected 500 (js ''Failed to submit print job''), srv)
             | Inr (processedFile, job) \<Rightarrow>
                 (let srv1 = setJob srv jobId job;
                      name = js ''Print Job - '' @ filename printRequest;
                      n = copiesOrOne (copies st)
                  in case printFile w processedFile (printerName printRequest) name n of
                       None \<Rightarrow> (Rejected 500 (js ''Failed to submit print job''), srv1)
                     | Some cupsJobId \<Rightarrow>
                         (let srv2 = spool srv1
                                \<lparr> document = processedFile, printer = printerName printRequest,
                                  jobName = name, copiesSent = n \<rparr>
                          in if duplex st then
                               (case getPageCount w (filename printRequest) of
                                  Inl e \<Rightarrow> (Rejected 500 (js ''Failed to submit print job''), srv2)
                                | Inr pageCount \<Rightarrow>
                                    (let awaiting =
                                       \<lparr> id' = jobId, status = AwaitingEvenPages,
                                         message = Some (js ''Odd pages sent to printer. Please flip the paper and print even pages.''),
                                         totalPages = Some pageCount, currentStep = Some Even \<rparr>
                                     in (Accepted jobId cupsJobId awaiting,
                                         setJob srv2 jobId awaiting)))
                             else
                               (let done =
                                  \<lparr> id' = jobId, status = Completed,
                                    message = Some (js ''Print job submitted successfully''),
                                    totalPages = None, currentStep = None \<rparr>
                                in (Accepted jobId cupsJobId done, setJob srv2 jobId done))))))"

text \<open>
  \<open>POST /api/print-even\<close>, with the fields \<open>jobId, filename, printerName, pageRange,
  copies\<close> of the request body as arguments. The page range is the one of this request:
  the job entry holds none.
\<close>

definition printEvenHandler ::
    "World \<Rightarrow> jsstring \<Rightarrow> jsstring \<Rightarrow> jsstring \<Rightarrow> jsstring option \<Rightarrow> int option \<Rightarrow> Server
       \<Rightarrow> Response \<times> Server" where
  "printEvenHandler w jobId file printerNm evenRange n srv =
     (if jobId = [] \<or> file = [] then
        (Rejected 400 (js ''Missing required fields''), srv)
      else
        (case printJobs srv jobId of
           None \<Rightarrow> (Rejected 400 (js ''Invalid job or job not awaiting even pages''), srv)
         | Some job \<Rightarrow>
             if status job \<noteq> AwaitingEvenPages then
               (Rejected 400 (js ''Invalid job or job not awaiting even pages''), srv)
             else if \<not> pathExists w file then
               (Rejected 404 (js ''File not found''), srv)
             else
               (case extractOddEvenPages w file Even evenRange of
                  Inl e \<Rightarrow> (Rejected 500 (js ''Failed to print even pages''), srv)
                | Inr processed \<Rightarrow>
                    (let name = js ''Print Job - '' @ file @ js '' (Even Pages)''
                     in case printFile w (ExtractedFile processed) printerNm name (copiesOrOne n) of
                          None \<Rightarrow> (Rejected 500 (js ''Failed to print even pages''), srv)
                        | Some cupsJobId \<Rightarrow>
                            (let srv1 = spool srv
                                   \<lparr> document = ExtractedFile processed, printer = printerNm,
                                     jobName = name, copiesSent = copiesOrOne n \<rparr>;
                                 done =
                                   \<lparr> id' = jobId, status = Completed,
                                     message = Some (js ''Duplex printing completed''),
                                     totalPages = None, currentStep = None \<rparr>
                             in (Accepted jobId cupsJobId done, setJob srv1 jobId done))))))"

section \<open>The client (\<open>services/api.ts\<close>)\<close>

text \<open>
  \<open>submitPrintJob(filename, printerName, settings)\<close> posts the three as the body of
  \<open>/api/print\<close>; \<open>printEvenPages(jobId, filename, printerName, copies)\<close> posts exactly
  these four fields to \<open>/api/print-even\<close>, so the handler reads \<open>pageRange\<close> as
  \<open>undefined\<close>.
\<close>

definition submitPrintJob ::
    "World \<Rightarrow> jsstring \<Rightarrow> jsstring \<Rightarrow> jsstring \<Rightarrow> PrintSettings \<Rightarrow> Server \<Rightarrow> Response \<times> Server" where
  "submitPrintJob w jobId file printerNm st srv =
     printHandler w jobId \<lparr> filename = file, settings = Some st, printerName = printerNm \<rparr> srv"

definition printEvenPages ::
    "World \<Rightarrow> jsstring \<Rightarrow> jsstring \<Rightarrow> jsstring \<Rightarrow> int \<Rightarrow> Server \<Rightarrow> Response \<times> Server" where
  "printEvenPages w jobId file printerNm n srv =
     printEvenHandler w jobId file printerNm None (Some n) srv"

section \<open>Notions used in the statements\<close>

text \<open>
  The contract of the composer: every index handed to it is a page of the document. The
  page selection always meets it.
\<close>

definition validPages :: "PdfDocument \<Rightarrow> int list \<Rightarrow> bool" where
  "validPages pdfDoc ps \<longleftrightarrow> (\<forall>p \<in> set ps. 1 \<le> p \<and> p \<le> int (length pdfDoc))"

text \<open>Every page that the given page numbers select has a \<open>/Contents\<close> entry.\<close>

definition embeddable :: "PdfDocument \<Rightarrow> int list \<Rightarrow> bool" where
  "embeddable pdfDoc ps \<longleftrightarrow> (\<forall>p \<in> set ps. hasContents (pdfDoc ! nat (p - 1)))"

text \<open>The pages of a document at the given 1-based page numbers, in the order given.\<close>

definition pagesOf :: "PdfDocument \<Rightarrow> int list \<Rightarrow> PdfDocument" where
  "pagesOf pdfDoc ps = map (\<lambda>p. pdfDoc ! nat (p - 1)) ps"

text \<open>
  The two loops of the N-up composition in closed form: what is drawn on the sheet that
  starts at position \<open>i\<close> of the page list, and the number of sheets for \<open>m\<close> pages at
  \<open>k\<close> a sheet.
\<close>

definition sheetAt :: "Layout \<Rightarrow> PdfDocument \<Rightarrow> int list \<Rightarrow> nat \<Rightarrow> Sheet" where
  "sheetAt lay pdfDoc ps i =
     map (\<lambda>j. drawCell lay (pdfDoc ! nat (ps ! (i + j) - 1)) j)
       [0..<min (pagesPerSheet lay) (length ps - i)]"

definition sheetCount :: "nat \<Rightarrow> nat \<Rightarrow> nat" where
  "sheetCount k m = (m + k - 1) div k"

text \<open>
  The content tokens of the source pages of a submission, in printing order (none for an
  upload printed as it is, which is not opened).
\<close>

definition printedContent :: "Submission \<Rightarrow> int list" where
  "printedContent sub =
     (case document sub of
        UploadedFile f \<Rightarrow> []
      | ExtractedFile d \<Rightarrow> map content d
      | NUpFile pages \<Rightarrow>
          concat (map (\<lambda>page. map (\<lambda>placed. content (embeddedPage placed)) (drawn page)) pages))"

section \<open>Example documents, worlds and states\<close>

text \<open>
  Documents of five and of ten A4 pages whose content tokens are the page numbers, and
  worlds that hold one of them under every name: two whose spooler accepts every job, one
  whose spooler throws on every job, and one in which no file can be read as a PDF.
\<close>

definition a4Page :: "int \<Rightarrow> PdfPage" where
  "a4Page c = \<lparr> width = 595, height = 842, content = c, hasContents = True \<rparr>"

definition fivePages :: PdfDocument where
  "fivePages = [a4Page 1, a4Page 2, a4Page 3, a4Page 4, a4Page 5]"

definition tenPages :: PdfDocument where
  "tenPages = map a4Page [1, 2, 3, 4, 5, 6, 7, 8, 9, 10]"

definition fiveWorld :: World where
  "fiveWorld = \<lparr> pathExists = (\<lambda>f. True), loadPdf = (\<lambda>f. Some fivePages),
                 printFile = (\<lambda>src p nm c. Some 1) \<rparr>"

definition tenWorld :: World where
  "tenWorld = \<lparr> pathExists = (\<lambda>f. True), loadPdf = (\<lambda>f. Some tenPages),
                printFile = (\<lambda>src p nm c. Some 17) \<rparr>"

definition deadSpoolerWorld :: World where
  "deadSpoolerWorld = \<lparr> pathExists = (\<lambda>f. True), loadPdf = (\<lambda>f. Some tenPages),
                        printFile = (\<lambda>src p nm c. None) \<rparr>"

definition corruptWorld :: World where
  "corruptWorld = \<lparr> pathExists = (\<lambda>f. True), loadPdf = (\<lambda>f. None),
                    printFile = (\<lambda>src p nm c. Some 17) \<rparr>"

text \<open>
  Five A4 pages that have no \<open>/Contents\<close> entry, and a world that holds them.
\<close>

definition barePages :: PdfDocument where
  "barePages = map (\<lambda>page. page \<lparr> hasContents := False \<rparr>) fivePages"

definition bareWorld :: World where
  "bareWorld = \<lparr> pathExists = (\<lambda>f. True), loadPdf = (\<lambda>f. Some barePages),
                 printFile = (\<lambda>src p nm c. Some 1) \<rparr>"

text \<open>
  A server with no job, and one with a job that waits for its even pages and a job that
  is completed; the settings and the request of a duplex job for the pages \<open>"1-4"\<close>.
\<close>

definition emptyServer :: Server where
  "emptyServer = \<lparr> printJobs = Map.empty, spooled = [] \<rparr>"

definition awaitingServer :: Server where
  "awaitingServer =
     \<lparr> printJobs = [js ''job-1'' \<mapsto>
          \<lparr> id' = js ''job-1'', status = AwaitingEvenPages, message = None,
            totalPages = Some 10, currentStep = Some Even \<rparr>,
        js ''job-2'' \<mapsto>
          \<lparr> id' = js ''job-2'', status = Completed, message = None,
            totalPages = None, currentStep = None \<rparr>],
       spooled = [] \<rparr>"

definition duplexRange :: PrintSettings where
  "duplexRange = \<lparr> duplex = True, layout = OneUp, pageRange = Some (js ''1-4''),
                   copies = Some 1 \<rparr>"

definition duplexRequest :: PrintRequest where
  "duplexRequest = \<lparr> filename = js ''doc.pdf'', settings = Some duplexRange,
                     printerName = js ''office'' \<rparr>"

section \<open>Properties of the page-range parser\<close>

text \<open>The loop of a pair in closed form; evaluation uses this equation.\<close>

lemma rangeLoop_eq [code]: "rangeLoop i hi pages = pages @ filter (\<lambda>p. 1 \<le> p) [i..hi]"
proof (induction i hi pages rule: rangeLoop.induct)
  case (1 i hi pages)
  show ?case
  proof (cases "i \<le> hi")
    case True
    then show ?thesis
      using "1.IH" by (subst rangeLoop.simps) (simp add: upto_rec1)
  next
    case False
    then show ?thesis by (subst rangeLoop.simps) simp
  qed
qed

lemma split_nonempty: "split sep s \<noteq> []"
  by (induction s) (auto split: list.splits)

lemma split_no_sep: "sep \<notin> set a \<Longrightarrow> split sep a = [a]"
  by (induction a) auto

lemma split_at_sep: "sep \<notin> set a \<Longrightarrow> split sep (a @ sep # t) = a # split sep t"
  by (induction a) (auto split: list.splits)

lemma split_pieces: "piece \<in> set (split sep s) \<Longrightarrow> sep \<notin> set piece"
  by (induction s arbitrary: piece) (auto split: if_splits list.splits)

lemma length_split: "length (split sep s) = Suc (length (filter (\<lambda>c. c = sep) s))"
  by (induction s) (auto split: list.splits simp: split_nonempty)

lemma split_rejoin: "split sep s = a # b # rest \<Longrightarrow> \<exists>t. s = a @ sep # t \<and> split sep t = b # rest"
proof (induction s arbitrary: a)
  case Nil
  then show ?case by simp
next
  case (Cons c s)
  show ?case
  proof (cases "c = sep")
    case True
    with Cons.prems show ?thesis by auto
  next
    case False
    with Cons.prems obtain a' where a': "a = c # a'" "split sep s = a' # b # rest"
      by (auto split: list.splits)
    from Cons.IH [OF a'(2)] obtain t where "s = a' @ sep # t" "split sep t = b # rest" by blast
    with a'(1) show ?thesis by auto
  qed
qed

lemma pair_token:
  assumes "split 45 part = a # b # rest"
  shows "parsePart n pages part =
           (case (parseInt (trim a), parseInt (trim b)) of
              (Some s, Some e) \<Rightarrow> pages @ filter (\<lambda>p. 1 \<le> p) [s..min e n]
            | _ \<Rightarrow> pages)"
proof -
  from split_rejoin [OF assms] have inc: "includes_unit part 45"
    by (auto simp: includes_unit_def)
  show ?thesis
    unfolding parsePart_def Let_def assms rangeLoop_eq
    by (simp only: inc if_True list.map list.case)
qed

lemma single_token:
  assumes "\<not> includes_unit part 45"
  shows "parsePart n pages part =
           (case parseInt part of
              None \<Rightarrow> pages
            | Some v \<Rightarrow> if 1 \<le> v \<and> v \<le> n then pages @ [v] else pages)"
  unfolding parsePart_def by (simp only: assms if_False)

lemma parsePart_extends: "\<exists>new. parsePart n pages part = pages @ new \<and> set new \<subseteq> {1..n}"
proof (cases "includes_unit part 45")
  case True
  then have "2 \<le> length (split 45 part)"
    by (simp add: length_split includes_unit_def filter_empty_conv Suc_le_eq)
  then obtain a b rest where "split 45 part = a # b # rest"
    by (cases "split 45 part"; cases "tl (split 45 part)") auto
  from pair_token [OF this] show ?thesis
    by (auto split: option.splits)
next
  case False
  from single_token [OF this] show ?thesis
    by (auto split: option.splits)
qed

lemma foldl_parsePart_bounds:
  "set pages \<subseteq> {1..n} \<Longrightarrow> set (foldl (parsePart n) pages parts) \<subseteq> {1..n}"
proof (induction parts arbitrary: pages)
  case Nil
  then show ?case by simp
next
  case (Cons part parts)
  obtain new where "parsePart n pages part = pages @ new" "set new \<subseteq> {1..n}"
    using parsePart_extends by blast
  with Cons.prems have "set (parsePart n pages part) \<subseteq> {1..n}" by simp
  then show ?case using Cons.IH by simp
qed

lemma setSpread_aux:
  "distinct seen \<Longrightarrow>
   distinct (foldl (\<lambda>seen p. if p \<in> set seen then seen else seen @ [p]) seen pages) \<and>
   set (foldl (\<lambda>seen p. if p \<in> set seen then seen else seen @ [p]) seen pages)
     = set seen \<union> set pages"
  by (induction pages arbitrary: seen) auto

lemma distinct_setSpread: "distinct (setSpread pages)"
  using setSpread_aux [of "[]" pages] by (simp add: setSpread_def)

lemma set_setSpread: "set (setSpread pages) = set pages"
  using setSpread_aux [of "[]" pages] by (simp add: setSpread_def)

lemma parsePageRange_strict: "sorted_wrt (<) (parsePageRange r n)"
  by (simp add: parsePageRange_def Let_def strict_sorted_iff distinct_setSpread)

lemma parsePageRange_bounds: "set (parsePageRange r n) \<subseteq> {1..n}"
  using foldl_parsePart_bounds [of "[]" n]
  by (simp add: parsePageRange_def Let_def set_setSpread)

lemma filter_from_one: "filter (\<lambda>p. 1 \<le> p) [s..m] = [max 1 s..m]" for s m :: int
proof -
  consider "1 \<le> s" | "s < 1" "m < 1" | "s < 1" "1 \<le> m" by linarith
  then show ?thesis
  proof cases
    case 1
    then show ?thesis by (auto simp: filter_id_conv max_def)
  next
    case 2
    then show ?thesis by (auto simp: filter_empty_conv max_def)
  next
    case 3
    then have "[s..m] = [s..1 - 1] @ [1..m]"
      by (intro upto_split1) auto
    moreover have "filter (\<lambda>p. 1 \<le> p) [s..1 - 1] = []"
      by (auto simp: filter_empty_conv)
    moreover have "filter (\<lambda>p. 1 \<le> p) [1..m] = [1..m]"
      by (auto simp: filter_id_conv)
    ultimately show ?thesis using 3 by (simp add: max_def)
  qed
qed

text \<open>
  Claim C3. For every range expression and every page count, \<open>parsePageRange\<close> returns a
  strictly ascending list without duplicates whose elements all lie between 1 and the page
  count; and \<open>"1-5,8,11-13"\<close> on 20 pages gives 1, 2, 3, 4, 5, 8, 11, 12, 13.
\<close>

theorem parsePageRange_ascending_in_bounds:
  "sorted_wrt (<) (parsePageRange rangeExpr n) \<and>
   distinct (parsePageRange rangeExpr n) \<and>
   (\<forall>p \<in> set (parsePageRange rangeExpr n). 1 \<le> p \<and> p \<le> n) \<and>
   parsePageRange (js ''1-5,8,11-13'') 20 = [1, 2, 3, 4, 5, 8, 11, 12, 13]"
proof -
  have ex: "parsePageRange (js ''1-5,8,11-13'') 20 = [1, 2, 3, 4, 5, 8, 11, 12, 13]"
    by code_simp
  have "distinct (parsePageRange rangeExpr n)"
    using parsePageRange_strict [of rangeExpr n] by (simp add: strict_sorted_iff)
  moreover have "\<forall>p \<in> set (parsePageRange rangeExpr n). 1 \<le> p \<and> p \<le> n"
    using parsePageRange_bounds [of rangeExpr n] by auto
  ultimately show ?thesis
    using parsePageRange_strict ex by blast
qed

text \<open>The bound at work: page 7 of \<open>"9, 7 ,7-8,30"\<close> on 12 pages.\<close>

theorem parsePageRange_ascending_in_bounds_witness:
  "7 \<in> set (parsePageRange (js ''9, 7 ,7-8,30'') 12) \<and> (1::int) \<le> 7 \<and> (7::int) \<le> 12 \<and>
   sorted_wrt (<) (parsePageRange (js ''9, 7 ,7-8,30'') 12)"
proof -
  have "parsePageRange (js ''9, 7 ,7-8,30'') 12 = [7, 8, 9]" by code_simp
  then have "7 \<in> set (parsePageRange (js ''9, 7 ,7-8,30'') 12)" by simp
  then show ?thesis
    using parsePageRange_ascending_in_bounds [of "js ''9, 7 ,7-8,30''" 12] by blast
qed

text \<open>
  Claim C4. \<open>parsePageRange\<close> is a total function with no failing branch: its loops are
  the terminating functions above and no operation of the source on the string throws.
  A token leaves \<open>pages\<close> as it was when it has no hyphen and \<open>parseInt\<close> gives \<open>NaN\<close>,
  when it is a number outside \<open>1..n\<close>, when the start or the end of a pair is \<open>NaN\<close>, and
  when the start of a pair is greater than its end; a readable pair adds exactly the pages
  from \<open>max 1 start\<close> to \<open>min end n\<close>. The whole result is the sorted, deduplicated
  collection of what the tokens add, and has at most \<open>n\<close> elements whatever the string;
  \<open>"3-1"\<close> on 10 pages gives nothing and \<open>"0,5,100"\<close> gives page 5.
\<close>

theorem parsePageRange_lenient:
  "(\<not> includes_unit part 45 \<and> parseInt part = None \<longrightarrow> parsePart n pages part = pages) \<and>
   (\<not> includes_unit part 45 \<and> parseInt part = Some v \<and> (v < 1 \<or> n < v)
      \<longrightarrow> parsePart n pages part = pages) \<and>
   (split 45 part = a # b # rest \<and> (parseInt (trim a) = None \<or> parseInt (trim b) = None)
      \<longrightarrow> parsePart n pages part = pages) \<and>
   (split 45 part = a # b # rest \<and> parseInt (trim a) = Some s \<and> parseInt (trim b) = Some e
      \<longrightarrow> parsePart n pages part = pages @ [max 1 s..min e n]) \<and>
   (split 45 part = a # b # rest \<and> parseInt (trim a) = Some s \<and> parseInt (trim b) = Some e
      \<and> e < s \<longrightarrow> parsePart n pages part = pages) \<and>
   parsePageRange rangeExpr n
     = sort (setSpread (foldl (parsePart n) [] (map trim (split 44 rangeExpr)))) \<and>
   length (parsePageRange rangeExpr n) \<le> nat n \<and>
   parsePageRange (js ''3-1'') 10 = [] \<and>
   parsePageRange (js ''0,5,100'') 10 = [5]"
proof -
  have single_nan: "parsePart n pages part = pages"
    if "\<not> includes_unit part 45" "parseInt part = None"
    using single_token [OF that(1), of n pages] that(2) by simp
  have single_out: "parsePart n pages part = pages"
    if "\<not> includes_unit part 45" "parseInt part = Some v" "v < 1 \<or> n < v"
    using single_token [OF that(1), of n pages] that(2,3) by auto
  have pair_nan: "parsePart n pages part = pages"
    if "split 45 part = a # b # rest" "parseInt (trim a) = None \<or> parseInt (trim b) = None"
    using pair_token [OF that(1), of n pages] that(2) by (auto split: option.splits)
  have pair_ok: "parsePart n pages part = pages @ [max 1 s..min e n]"
    if "split 45 part = a # b # rest" "parseInt (trim a) = Some s" "parseInt (trim b) = Some e"
    using pair_token [OF that(1), of n pages] that(2,3) by (simp add: filter_from_one)
  have pair_rev: "parsePart n pages part = pages"
    if "split 45 part = a # b # rest" "parseInt (trim a) = Some s" "parseInt (trim b) = Some e"
       "e < s"
    using pair_ok [OF that(1,2,3)] that(4) by simp
  have ex1: "parsePageRange (js ''3-1'') 10 = []" by code_simp
  have ex2: "parsePageRange (js ''0,5,100'') 10 = [5]" by code_simp
  have unfold: "parsePageRange rangeExpr n
     = sort (setSpread (foldl (parsePart n) [] (map trim (split 44 rangeExpr))))"
    by (simp add: parsePageRange_def Let_def)
  have size: "length (parsePageRange rangeExpr n) \<le> nat n"
  proof -
    have "distinct (parsePageRange rangeExpr n)"
      using parsePageRange_strict [of rangeExpr n] by (simp add: strict_sorted_iff)
    then have "length (parsePageRange rangeExpr n) = card (set (parsePageRange rangeExpr n))"
      by (simp add: distinct_card)
    also have "\<dots> \<le> card {1..n}"
      by (intro card_mono parsePageRange_bounds) simp
    also have "\<dots> = nat n" by simp
    finally show ?thesis .
  qed
  show ?thesis
    using single_nan single_out pair_nan pair_ok pair_rev ex1 ex2 unfold size by blast
qed

text \<open>One token for each case of the leniency, on 10 pages with page 2 already collected.\<close>

theorem parsePageRange_lenient_witness:
  "parsePart 10 [2] (js ''abc'') = [2] \<and>
   parsePart 10 [2] (js ''100'') = [2] \<and>
   parsePart 10 [2] (js ''x-5'') = [2] \<and>
   parsePart 10 [2] (js ''0-30'') = [2] @ [1..10] \<and>
   parsePart 10 [2] (js ''3-1'') = [2]"
proof -
  note L = parsePageRange_lenient [where n = 10 and pages = "[2]"]
  have h1: "\<not> includes_unit (js ''abc'') 45 \<and> parseInt (js ''abc'') = None"
    by code_simp
  have h2: "\<not> includes_unit (js ''100'') 45 \<and> parseInt (js ''100'') = Some 100
              \<and> ((100::int) < 1 \<or> (10::int) < 100)"
    by code_simp
  have h3: "split 45 (js ''x-5'') = js ''x'' # js ''5'' # []
              \<and> (parseInt (trim (js ''x'')) = None \<or> parseInt (trim (js ''5'')) = None)"
    by code_simp
  have h4: "split 45 (js ''0-30'') = js ''0'' # js ''30'' # []
              \<and> parseInt (trim (js ''0'')) = Some 0 \<and> parseInt (trim (js ''30'')) = Some 30"
    by code_simp
  have h5: "split 45 (js ''3-1'') = js ''3'' # js ''1'' # []
              \<and> parseInt (trim (js ''3'')) = Some 3 \<and> parseInt (trim (js ''1'')) = Some 1
              \<and> (1::int) < 3"
    by code_simp
  have w1: "parsePart 10 [2] (js ''abc'') = [2]"
    using L [where part = "js ''abc''", THEN conjunct1] h1 by blast
  have w2: "parsePart 10 [2] (js ''100'') = [2]"
    using L [where part = "js ''100''" and v = 100, THEN conjunct2, THEN conjunct1] h2 by blast
  have w3: "parsePart 10 [2] (js ''x-5'') = [2]"
    using L [where part = "js ''x-5''" and a = "js ''x''" and b = "js ''5''" and rest = "[]",
             THEN conjunct2, THEN conjunct2, THEN conjunct1] h3 by blast
  have w4: "parsePart 10 [2] (js ''0-30'') = [2] @ [max 1 0..min 30 10]"
    using L [where part = "js ''0-30''" and a = "js ''0''" and b = "js ''30''" and rest = "[]"
               and s = 0 and e = 30,
             THEN conjunct2, THEN conjunct2, THEN conjunct2, THEN conjunct1] h4 by blast
  have w5: "parsePart 10 [2] (js ''3-1'') = [2]"
    using L [where part = "js ''3-1''" and a = "js ''3''" and b = "js ''1''" and rest = "[]"
               and s = 3 and e = 1,
             THEN conjunct2, THEN conjunct2, THEN conjunct2, THEN conjunct2, THEN conjunct1] h5
    by blast
  from w4 have "parsePart 10 [2] (js ''0-30'') = [2] @ [1..10]" by simp
  with w1 w2 w3 w5 show ?thesis by blast
qed

text \<open>
  Claim C10. A token with more than one hyphen is read by its first two components: it
  adds what the token made of these two alone adds, namely the pages from \<open>max 1 start\<close> to
  \<open>min end n\<close> when both are readable, and it is not dropped; \<open>"1-3-5"\<close> on 10 pages adds
  pages 1, 2 and 3.
\<close>

theorem extra_hyphen_components_ignored:
  "1 < length (filter (\<lambda>c. c = 45) part) \<Longrightarrow>
     parsePart n pages part = parsePart n pages (split 45 part ! 0 @ 45 # split 45 part ! 1) \<and>
     parsePart n pages part =
       (case (parseInt (trim (split 45 part ! 0)), parseInt (trim (split 45 part ! 1))) of
          (Some s, Some e) \<Rightarrow> pages @ [max 1 s..min e n]
        | _ \<Rightarrow> pages) \<and>
     parsePart 10 [] (js ''1-3-5'') = [1, 2, 3] \<and>
     parsePageRange (js ''1-3-5'') 10 = [1, 2, 3]"
proof -
  assume many: "1 < length (filter (\<lambda>c. c = 45) part)"
  then have "3 \<le> length (split 45 part)"
    by (simp add: length_split)
  then obtain a b c rest where sp: "split 45 part = a # b # c # rest"
    by (cases "split 45 part"; cases "tl (split 45 part)"; cases "tl (tl (split 45 part))") auto
  have "a \<in> set (split 45 part)" "b \<in> set (split 45 part)"
    by (simp_all add: sp)
  then have free: "45 \<notin> set a" "45 \<notin> set b"
    by (auto dest: split_pieces)
  then have two: "split 45 (a @ 45 # b) = a # b # []"
    by (simp add: split_at_sep split_no_sep)
  have whole: "parsePart n pages part =
       (case (parseInt (trim a), parseInt (trim b)) of
          (Some s, Some e) \<Rightarrow> pages @ [max 1 s..min e n]
        | _ \<Rightarrow> pages)"
    using pair_token [OF sp, of n pages] by (simp add: filter_from_one split: option.splits)
  have short: "parsePart n pages (a @ 45 # b) =
       (case (parseInt (trim a), parseInt (trim b)) of
          (Some s, Some e) \<Rightarrow> pages @ [max 1 s..min e n]
        | _ \<Rightarrow> pages)"
    using pair_token [OF two, of n pages] by (simp add: filter_from_one split: option.splits)
  have ex1: "parsePart 10 [] (js ''1-3-5'') = [1, 2, 3]" by code_simp
  have ex2: "parsePageRange (js ''1-3-5'') 10 = [1, 2, 3]" by code_simp
  show ?thesis
    using whole short ex1 ex2 by (simp add: sp)
qed

text \<open>The token \<open>"2-4-9-1"\<close> adds what \<open>"2-4"\<close> adds.\<close>

theorem extra_hyphen_components_ignored_witness:
  "1 < length (filter (\<lambda>c. c = 45) (js ''2-4-9-1'')) \<and>
   parsePart 10 [] (js ''2-4-9-1'') = parsePart 10 [] (js ''2-4'') \<and>
   parsePart 10 [] (js ''2-4-9-1'') = [2, 3, 4]"
proof -
  have h: "1 < length (filter (\<lambda>c. c = 45) (js ''2-4-9-1''))" by code_simp
  have sp: "split 45 (js ''2-4-9-1'') ! 0 @ 45 # split 45 (js ''2-4-9-1'') ! 1 = js ''2-4''"
    by code_simp
  have v: "parsePart 10 [] (js ''2-4'') = [2, 3, 4]" by code_simp
  from extra_hyphen_components_ignored [OF h, of 10 "[]"] sp
  have "parsePart 10 [] (js ''2-4-9-1'') = parsePart 10 [] (js ''2-4'')" by simp
  with h v show ?thesis by simp
qed

section \<open>Properties of the page selection\<close>

text \<open>
  On the page numbers, which are positive, \<open>%\<close> is the mathematical remainder.
\<close>

lemma js_rem_two: "0 \<le> p \<Longrightarrow> js_rem p 2 = p mod 2"
  by (cases "p = 0") (simp_all add: js_rem_def)

lemma pagesToProcess_truthy:
  "pagesToProcess n r = (case truthy r of None \<Rightarrow> [1..n] | Some e \<Rightarrow> parsePageRange e n)"
  by (simp add: pagesToProcess_def truthy_def split: option.splits)

lemma pagesToProcess_bounds: "set (pagesToProcess n r) \<subseteq> {1..n}"
  using parsePageRange_bounds by (auto simp: pagesToProcess_def split: option.splits)

lemma pagesToProcess_strict: "sorted_wrt (<) (pagesToProcess n r)"
proof -
  have "sorted_wrt (<) [1..n]" by (simp add: strict_sorted_iff)
  then show ?thesis
    by (simp add: pagesToProcess_def parsePageRange_strict split: option.splits)
qed

lemma filteredPages_parity:
  "filteredPages n parity r =
     filter (\<lambda>p. if parity = Odd then odd p else even p) (pagesToProcess n r)"
proof -
  have "(if parity = Odd then js_rem p 2 = 1 else js_rem p 2 = 0)
          = (if parity = Odd then odd p else even p)"
    if "p \<in> set (pagesToProcess n r)" for p
  proof -
    from that pagesToProcess_bounds [of n r] have "0 \<le> p" by auto
    then show ?thesis by (auto simp: js_rem_two odd_iff_mod_2_eq_one)
  qed
  then show ?thesis
    unfolding filteredPages_def by (intro filter_cong) auto
qed

lemma filteredPages_bounds: "set (filteredPages n parity r) \<subseteq> {1..n}"
  using pagesToProcess_bounds [of n r] by (auto simp: filteredPages_def)

lemma copyPagesLoop_ok:
  "\<forall>p \<in> set ps. 1 \<le> p \<and> p \<le> int (length pdfDoc) \<Longrightarrow>
   copyPagesLoop pdfDoc ps acc = Inr (acc @ map (\<lambda>p. pdfDoc ! nat (p - 1)) ps)"
  by (induction ps arbitrary: acc) auto

lemma save_simps:
  "save [] = [defaultPage]" "save (pg # pgs) = pg # pgs" "ps \<noteq> [] \<Longrightarrow> save ps = ps"
  by (simp_all add: save_def split: list.splits)

lemma extractOddEvenPages_ok:
  "loadPdf w path = Some pdfDoc \<Longrightarrow>
   extractOddEvenPages w path parity r =
     Inr (save (map (\<lambda>p. pdfDoc ! nat (p - 1)) (filteredPages (int (length pdfDoc)) parity r)))"
  using filteredPages_bounds [of "int (length pdfDoc)" parity r]
  by (simp add: extractOddEvenPages_def copyPagesLoop_ok subset_iff)

text \<open>
  Claim C5. The parity filter comes after the range restriction: the selected pages are
  exactly the pages of the base list (the parsed range when a truthy range is given, every
  page \<open>1..n\<close> otherwise) that are odd, or even, as asked, and they are in strictly
  ascending order, which fixes the list. On 10 pages, \<open>odd\<close> with no range selects
  1, 3, 5, 7, 9 and \<open>odd\<close> with the range \<open>"2-6"\<close> selects 3 and 5.
\<close>

theorem page_selection_parity_after_range:
  "set (filteredPages n parity r) =
     {p \<in> set (case truthy r of None \<Rightarrow> [1..n] | Some e \<Rightarrow> parsePageRange e n).
        if parity = Odd then odd p else even p} \<and>
   sorted_wrt (<) (filteredPages n parity r) \<and>
   filteredPages 10 Odd None = [1, 3, 5, 7, 9] \<and>
   filteredPages 10 Odd (Some (js ''2-6'')) = [3, 5]"
proof -
  have s: "set (filteredPages n parity r) =
     {p \<in> set (case truthy r of None \<Rightarrow> [1..n] | Some e \<Rightarrow> parsePageRange e n).
        if parity = Odd then odd p else even p}"
    by (simp only: filteredPages_parity pagesToProcess_truthy set_filter)
  have o: "sorted_wrt (<) (filteredPages n parity r)"
    unfolding filteredPages_def by (intro sorted_wrt_filter pagesToProcess_strict)
  have ex1: "filteredPages 10 Odd None = [1, 3, 5, 7, 9]" by code_simp
  have ex2: "filteredPages 10 Odd (Some (js ''2-6'')) = [3, 5]" by code_simp
  from s o ex1 ex2 show ?thesis by blast
qed

text \<open>
  The range \<open>"2-4"\<close> on 10 pages: the odd pass has page 3 only, the even pass pages 2 and 4.
\<close>

theorem page_selection_parity_after_range_witness:
  "truthy (Some (js ''2-4'')) = Some (js ''2-4'') \<and>
   parsePageRange (js ''2-4'') 10 = [2, 3, 4] \<and>
   set (filteredPages 10 Odd (Some (js ''2-4''))) = {3} \<and>
   set (filteredPages 10 Even (Some (js ''2-4''))) = {2, 4}"
proof -
  have t: "truthy (Some (js ''2-4'')) = Some (js ''2-4'')" by code_simp
  have r: "parsePageRange (js ''2-4'') 10 = [2, 3, 4]" by code_simp
  have base: "(case truthy (Some (js ''2-4'')) of None \<Rightarrow> [1..10]
               | Some e \<Rightarrow> parsePageRange e 10) = [2, 3, 4]"
    by (simp only: t r option.case)
  have "set (filteredPages 10 Odd (Some (js ''2-4''))) = {p \<in> set [2, 3, 4]. odd p}"
    using page_selection_parity_after_range [of 10 Odd "Some (js ''2-4'')", THEN conjunct1]
    by (simp only: base refl if_True)
  also have "\<dots> = {3}" by auto
  finally have odd_pass: "set (filteredPages 10 Odd (Some (js ''2-4''))) = {3}" .
  have "set (filteredPages 10 Even (Some (js ''2-4''))) = {p \<in> set [2, 3, 4]. even p}"
    using page_selection_parity_after_range [of 10 Even "Some (js ''2-4'')", THEN conjunct1]
    by (simp only: base Parity.distinct if_False)
  also have "\<dots> = {2, 4}" by auto
  finally have even_pass: "set (filteredPages 10 Even (Some (js ''2-4''))) = {2, 4}" .
  from t r odd_pass even_pass show ?thesis by blast
qed

section \<open>Properties of the N-up composition\<close>

lemma pagesPerSheet_pos: "0 < pagesPerSheet lay"
  by (simp add: pagesPerSheet_def)

text \<open>
  The two loops in closed form.
\<close>

lemma cellLoop_ok:
  "validPages pdfDoc ps \<Longrightarrow> embeddable pdfDoc ps \<Longrightarrow>
   cellLoop lay pdfDoc ps i j acc =
     Inr (acc @ map (\<lambda>j'. drawCell lay (pdfDoc ! nat (ps ! (i + j') - 1)) j')
                  [j..<min (pagesPerSheet lay) (length ps - i)])"
proof (induction lay pdfDoc ps i j acc rule: cellLoop.induct)
  case (1 lay pdfDoc ps i j acc)
  show ?case
  proof (cases "j < pagesPerSheet lay \<and> i + j < length ps")
    case True
    then have "ps ! (i + j) \<in> set ps" by simp
    with "1.prems" have ok: "0 \<le> ps ! (i + j) - 1 \<and> ps ! (i + j) - 1 < int (length pdfDoc)"
      and con: "hasContents (pdfDoc ! nat (ps ! (i + j) - 1))"
      by (auto simp: validPages_def embeddable_def)
    from True have lt: "j < min (pagesPerSheet lay) (length ps - i)" by auto
    have "cellLoop lay pdfDoc ps i j acc =
            cellLoop lay pdfDoc ps i (j + 1)
              (acc @ [drawCell lay (pdfDoc ! nat (ps ! (i + j) - 1)) j])"
      using True ok con by (subst cellLoop.simps) (simp add: Let_def)
    also have "\<dots> = Inr ((acc @ [drawCell lay (pdfDoc ! nat (ps ! (i + j) - 1)) j]) @
                 map (\<lambda>j'. drawCell lay (pdfDoc ! nat (ps ! (i + j') - 1)) j')
                   [j + 1..<min (pagesPerSheet lay) (length ps - i)])"
      using "1.IH" [OF True refl _ con] ok "1.prems" by simp
    finally show ?thesis
      using lt by (simp add: upt_conv_Cons)
  next
    case False
    then have "[j..<min (pagesPerSheet lay) (length ps - i)] = []" by auto
    moreover from False have "cellLoop lay pdfDoc ps i j acc = Inr acc"
      by (subst cellLoop.simps) auto
    ultimately show ?thesis by simp
  qed
qed

lemma cellLoop_sheetAt:
  "validPages pdfDoc ps \<Longrightarrow> embeddable pdfDoc ps \<Longrightarrow>
   cellLoop lay pdfDoc ps i 0 [] = Inr (sheetAt lay pdfDoc ps i)"
  using cellLoop_ok [of pdfDoc ps lay i 0 "[]"] by (simp add: sheetAt_def)

lemma cellLoop_Inr:
  "cellLoop lay pdfDoc ps i j acc = Inr sheet \<Longrightarrow>
   sheet = acc @ map (\<lambda>j'. drawCell lay (pdfDoc ! nat (ps ! (i + j') - 1)) j')
                   [j..<min (pagesPerSheet lay) (length ps - i)]"
proof (induction lay pdfDoc ps i j acc rule: cellLoop.induct)
  case (1 lay pdfDoc ps i j acc)
  show ?case
  proof (cases "j < pagesPerSheet lay \<and> i + j < length ps")
    case True
    from True have lt: "j < min (pagesPerSheet lay) (length ps - i)" by auto
    from True "1.prems" have ok: "0 \<le> ps ! (i + j) - 1 \<and> ps ! (i + j) - 1 < int (length pdfDoc)"
      and con: "hasContents (pdfDoc ! nat (ps ! (i + j) - 1))"
      and next_run: "cellLoop lay pdfDoc ps i (j + 1)
              (acc @ [drawCell lay (pdfDoc ! nat (ps ! (i + j) - 1)) j]) = Inr sheet"
      by (subst (asm) cellLoop.simps, simp add: Let_def split: if_splits)+
    from "1.IH" [OF True refl ok con next_run]
    show ?thesis using lt by (simp add: upt_conv_Cons)
  next
    case False
    then have "[j..<min (pagesPerSheet lay) (length ps - i)] = []" by auto
    moreover from False have "cellLoop lay pdfDoc ps i j acc = Inr acc"
      by (subst cellLoop.simps) auto
    ultimately show ?thesis using "1.prems" by simp
  qed
qed

lemma cellLoop_Inr_sheetAt:
  "cellLoop lay pdfDoc ps i 0 [] = Inr sheet \<Longrightarrow> sheet = sheetAt lay pdfDoc ps i"
  using cellLoop_Inr [of lay pdfDoc ps i 0 "[]" sheet] by (simp add: sheetAt_def)

lemma sheetCount_step:
  assumes "0 < k" "0 < m"
  shows "sheetCount k m = Suc (sheetCount k (m - k))"
proof (cases "k \<le> m")
  case True
  with assms have "m + k - 1 = (m - k + k - 1) + k" by linarith
  then have "(m + k - 1) div k = ((m - k + k - 1) + k) div k" by (rule arg_cong)
  also have "\<dots> = (m - k + k - 1) div k + 1"
    using assms(1) by (simp only: div_add_self2)
  finally show ?thesis by (simp only: sheetCount_def Suc_eq_plus1)
next
  case False
  with assms have "k \<le> m + k - 1" "m + k - 1 < 2 * k" by linarith+
  then have "(m + k - 1) div k = 1"
    by (intro div_nat_eqI) simp_all
  moreover from False have "m - k + k - 1 < k" using assms by linarith
  then have "(m - k + k - 1) div k = 0" by (rule div_less)
  ultimately show ?thesis by (simp only: sheetCount_def)
qed

lemma sheetLoop_ok:
  "validPages pdfDoc ps \<Longrightarrow> embeddable pdfDoc ps \<Longrightarrow>
   sheetLoop lay pdfDoc ps i acc =
     Inr (acc @ map (\<lambda>t. sheetAt lay pdfDoc ps (i + t * pagesPerSheet lay))
                  [0..<sheetCount (pagesPerSheet lay) (length ps - i)])"
proof (induction lay pdfDoc ps i acc rule: sheetLoop.induct)
  case (1 lay pdfDoc ps i acc)
  let ?k = "pagesPerSheet lay"
  show ?case
  proof (cases "i < length ps")
    case True
    have cell: "cellLoop lay pdfDoc ps i 0 [] = Inr (sheetAt lay pdfDoc ps i)"
      using "1.prems" by (intro cellLoop_sheetAt)
    have "sheetLoop lay pdfDoc ps i acc =
            sheetLoop lay pdfDoc ps (i + ?k) (acc @ [sheetAt lay pdfDoc ps i])"
      using True cell by (subst sheetLoop.simps) simp
    also have "\<dots> = Inr ((acc @ [sheetAt lay pdfDoc ps i]) @
                 map (\<lambda>t. sheetAt lay pdfDoc ps (i + ?k + t * ?k))
                   [0..<sheetCount ?k (length ps - (i + ?k))])"
      using "1.IH" [OF True cell "1.prems"] by simp
    finally have run: "sheetLoop lay pdfDoc ps i acc =
        Inr (acc @ sheetAt lay pdfDoc ps i #
               map (\<lambda>t. sheetAt lay pdfDoc ps (i + ?k + t * ?k))
                 [0..<sheetCount ?k (length ps - (i + ?k))])"
      by simp
    from True have cnt: "sheetCount ?k (length ps - i) = Suc (sheetCount ?k (length ps - i - ?k))"
      by (intro sheetCount_step pagesPerSheet_pos) simp
    have "map (\<lambda>t. sheetAt lay pdfDoc ps (i + t * ?k)) [0..<sheetCount ?k (length ps - i)]
            = sheetAt lay pdfDoc ps i #
                map (\<lambda>t. sheetAt lay pdfDoc ps (i + ?k + t * ?k))
                  [0..<sheetCount ?k (length ps - (i + ?k))]"
      by (simp only: cnt map_upt_Suc) (simp add: add.assoc diff_diff_left)
    with run show ?thesis by simp
  next
    case False
    then have "sheetCount ?k (length ps - i) = 0"
      using pagesPerSheet_pos [of lay] by (simp add: sheetCount_def)
    moreover from False have "sheetLoop lay pdfDoc ps i acc = Inr acc"
      by (subst sheetLoop.simps) auto
    ultimately show ?thesis by simp
  qed
qed

lemma sheetLoop_Inr:
  "sheetLoop lay pdfDoc ps i acc = Inr sheets \<Longrightarrow>
   sheets = acc @ map (\<lambda>t. sheetAt lay pdfDoc ps (i + t * pagesPerSheet lay))
                    [0..<sheetCount (pagesPerSheet lay) (length ps - i)]"
proof (induction lay pdfDoc ps i acc rule: sheetLoop.induct)
  case (1 lay pdfDoc ps i acc)
  let ?k = "pagesPerSheet lay"
  show ?case
  proof (cases "i < length ps")
    case True
    from True "1.prems" obtain sheet where
      cell: "cellLoop lay pdfDoc ps i 0 [] = Inr sheet" and
      next_run: "sheetLoop lay pdfDoc ps (i + ?k) (acc @ [sheet]) = Inr sheets"
      by (subst (asm) sheetLoop.simps) (auto split: sum.splits)
    from cellLoop_Inr_sheetAt [OF cell] have sheet: "sheet = sheetAt lay pdfDoc ps i" .
    from "1.IH" [OF True cell next_run]
    have run: "sheets = acc @ sheetAt lay pdfDoc ps i #
               map (\<lambda>t. sheetAt lay pdfDoc ps (i + ?k + t * ?k))
                 [0..<sheetCount ?k (length ps - (i + ?k))]"
      by (simp add: sheet)
    from True have cnt: "sheetCount ?k (length ps - i) = Suc (sheetCount ?k (length ps - i - ?k))"
      by (intro sheetCount_step pagesPerSheet_pos) simp
    have "map (\<lambda>t. sheetAt lay pdfDoc ps (i + t * ?k)) [0..<sheetCount ?k (length ps - i)]
            = sheetAt lay pdfDoc ps i #
                map (\<lambda>t. sheetAt lay pdfDoc ps (i + ?k + t * ?k))
                  [0..<sheetCount ?k (length ps - (i + ?k))]"
      by (simp only: cnt map_upt_Suc) (simp add: add.assoc diff_diff_left)
    with run show ?thesis by simp
  next
    case False
    then have "sheetCount ?k (length ps - i) = 0"
      using pagesPerSheet_pos [of lay] by (simp add: sheetCount_def)
    moreover from False have "sheetLoop lay pdfDoc ps i acc = Inr acc"
      by (subst sheetLoop.simps) auto
    ultimately show ?thesis using "1.prems" by simp
  qed
qed

lemma sheetCount_ceiling: "0 < k \<Longrightarrow> sheetCount k m = nat \<lceil>real m / real k\<rceil>"
proof -
  assume k: "0 < k"
  have "\<lceil>real m / real k\<rceil> = int ((m + k - 1) div k)"
  proof (rule ceiling_unique)
    have "m \<le> ((m + k - 1) div k) * k"
    proof -
      have "(m + k - 1) = ((m + k - 1) div k) * k + (m + k - 1) mod k" by simp
      moreover have "(m + k - 1) mod k \<le> k - 1" using k by (simp add: less_Suc_eq_le [symmetric])
      ultimately show ?thesis using k by linarith
    qed
    then have "real m \<le> real ((m + k - 1) div k) * real k"
      by (metis of_nat_mult of_nat_le_iff)
    then show "real m / real k \<le> of_int (int ((m + k - 1) div k))"
      using k by (simp add: field_simps)
    have "((m + k - 1) div k) * k \<le> m + k - 1" by simp
    then have "((m + k - 1) div k) * k < m + k" using k by linarith
    then have "real ((m + k - 1) div k) * real k < real m + real k"
      by (metis of_nat_mult of_nat_add of_nat_less_iff)
    then show "of_int (int ((m + k - 1) div k)) - 1 < real m / real k"
      using k by (simp add: field_simps)
  qed
  then show ?thesis by (simp add: sheetCount_def)
qed

lemma sheetCount_covers: "0 < k \<Longrightarrow> t < sheetCount k m \<Longrightarrow> t * k < m"
proof -
  assume k: "0 < k" and t: "t < sheetCount k m"
  from t have "Suc t \<le> (m + k - 1) div k" by (simp add: sheetCount_def)
  then have "Suc t * k \<le> ((m + k - 1) div k) * k" by (rule mult_le_mono1)
  also have "\<dots> \<le> m + k - 1" by simp
  finally show ?thesis using k by simp
qed

lemma sheetCount_full: "0 < k \<Longrightarrow> Suc t < sheetCount k m \<Longrightarrow> k \<le> m - t * k"
proof -
  assume k: "0 < k" and t: "Suc t < sheetCount k m"
  from sheetCount_covers [OF k t] show ?thesis by simp
qed

lemma sheetCount_enough: "0 < k \<Longrightarrow> m \<le> sheetCount k m * k"
proof -
  assume k: "0 < k"
  have "m + k - 1 = ((m + k - 1) div k) * k + (m + k - 1) mod k" by simp
  moreover have "(m + k - 1) mod k \<le> k - 1"
    using k by (simp add: less_Suc_eq_le [symmetric])
  ultimately show ?thesis using k unfolding sheetCount_def by linarith
qed

lemma sheetLoop_sheets:
  assumes "validPages pdfDoc ps" "embeddable pdfDoc ps"
  shows "sheetLoop lay pdfDoc ps 0 [] =
           Inr (map (\<lambda>t. sheetAt lay pdfDoc ps (t * pagesPerSheet lay))
                  [0..<sheetCount (pagesPerSheet lay) (length ps)])"
  using sheetLoop_ok [OF assms, of lay 0 "[]"] by simp

lemma length_sheetAt:
  "length (sheetAt lay pdfDoc ps i) = min (pagesPerSheet lay) (length ps - i)"
  by (simp add: sheetAt_def)

lemma nth_sheetAt:
  "j < length (sheetAt lay pdfDoc ps i) \<Longrightarrow>
   sheetAt lay pdfDoc ps i ! j = drawCell lay (pdfDoc ! nat (ps ! (i + j) - 1)) j"
  by (simp add: sheetAt_def)

lemma saveComposed_simps:
  "saveComposed [] = [defaultComposedPage]" "pgs \<noteq> [] \<Longrightarrow> saveComposed pgs = pgs"
  by (simp_all add: saveComposed_def split: list.splits)

lemma sheetCount_zero: "0 < k \<Longrightarrow> sheetCount k m = 0 \<longleftrightarrow> m = 0"
  using sheetCount_enough [of k m] by (auto simp: sheetCount_def)

text \<open>
  Claim C6, as stated, does not hold for every selected page list. A range that selects
  no page (\<open>"abc"\<close> on five pages) has \<open>\<lceil>0 / 4\<rceil> = 0\<close> sheets, but the file that the
  composition writes has one page, the blank page that \<open>save\<close> adds: a padding page. And
  the composition fails with an error when a selected page has no \<open>/Contents\<close> entry.
\<close>

theorem nup_empty_selection_padded:
  "pagesToProcess (int (length fivePages)) (Some (js ''abc'')) = [] \<and>
   nat \<lceil>real (length (pagesToProcess (int (length fivePages)) (Some (js ''abc''))))
          / real (pagesPerSheet FourUp)\<rceil> = 0 \<and>
   createNUpLayout fiveWorld (js ''f.pdf'') FourUp (Some (js ''abc'')) = Inr [defaultComposedPage] \<and>
   length [defaultComposedPage] = 1 \<and>
   createNUpLayout bareWorld (js ''f.pdf'') FourUp None = Inl MissingContents"
proof -
  have sel: "pagesToProcess (int (length fivePages)) (Some (js ''abc'')) = []"
    by code_simp
  have run: "sheetLoop FourUp fivePages [] 0 [] = Inr []"
    by (subst sheetLoop.simps) simp
  have empty: "createNUpLayout fiveWorld (js ''f.pdf'') FourUp (Some (js ''abc'')) = Inr [defaultComposedPage]"
    by (simp add: createNUpLayout_def fiveWorld_def sel run saveComposed_simps)
  have all: "pagesToProcess (int (length barePages)) None = [1, 2, 3, 4, 5]"
    by code_simp
  have bare: "\<not> hasContents (barePages ! nat (1 - 1))"
    by (simp add: barePages_def fivePages_def a4Page_def)
  have len: "length barePages = 5" by (simp add: barePages_def fivePages_def)
  have cell: "cellLoop FourUp barePages [1, 2, 3, 4, 5] 0 0 [] = Inl MissingContents"
    using bare by (subst cellLoop.simps) (simp add: pagesPerSheet_def len Let_def)
  have "sheetLoop FourUp barePages [1, 2, 3, 4, 5] 0 [] = Inl MissingContents"
    by (subst sheetLoop.simps) (simp add: cell)
  then have fail: "createNUpLayout bareWorld (js ''f.pdf'') FourUp None = Inl MissingContents"
    by (simp add: createNUpLayout_def bareWorld_def all)
  from sel empty fail show ?thesis by simp
qed

text \<open>
  Claim C6, amended. For a page list that is not empty, whose page numbers are pages of
  the document and whose pages all have a \<open>/Contents\<close> entry, the composer makes exactly
  \<open>\<lceil>length ps / pagesPerSheet\<rceil>\<close> sheets, without failing; every sheet has at least one
  page, every sheet but the last has \<open>pagesPerSheet\<close> of them (2 for 2-up, 4 for 4-up), the
  last has the pages that remain, so its other cells stay blank, and \<open>save\<close> adds no page.
  So \<open>createNUpLayout\<close>, on a loaded document whose selected pages have a \<open>/Contents\<close>
  entry, writes exactly these sheets when the selection is not empty, and the one blank
  default page when it is empty. A document of 5 such pages composed 4-up gives 2 sheets, the
  second with 1 page and 3 blank cells.
\<close>

theorem nup_sheet_count:
  assumes "validPages pdfDoc ps" and "embeddable pdfDoc ps" and "ps \<noteq> []"
  shows "(\<exists>sheets. sheetLoop lay pdfDoc ps 0 [] = Inr sheets \<and>
           saveComposed (map sheetPage sheets) = map sheetPage sheets \<and>
           length sheets = nat \<lceil>real (length ps) / real (pagesPerSheet lay)\<rceil> \<and>
           (\<forall>t < length sheets.
              0 < length (sheets ! t) \<and>
              length (sheets ! t) = min (pagesPerSheet lay) (length ps - t * pagesPerSheet lay)) \<and>
           (\<forall>t. Suc t < length sheets \<longrightarrow> length (sheets ! t) = pagesPerSheet lay) \<and>
           length (last sheets) = length ps - (length sheets - 1) * pagesPerSheet lay \<and>
           length (last sheets) \<le> pagesPerSheet lay) \<and>
         (pagesPerSheet TwoUp = 2 \<and> pagesPerSheet FourUp = 4) \<and>
         (loadPdf w path = Some pdfDoc \<and> ps = pagesToProcess (int (length pdfDoc)) r
            \<longrightarrow> (\<exists>sheets. createNUpLayout w path lay r = Inr (map sheetPage sheets) \<and>
                   length sheets = nat \<lceil>real (length ps) / real (pagesPerSheet lay)\<rceil>)) \<and>
         (loadPdf w path = Some pdfDoc \<and> pagesToProcess (int (length pdfDoc)) r = []
            \<longrightarrow> createNUpLayout w path lay r = Inr [defaultComposedPage]) \<and>
         (length pdfDoc = 5 \<and> (\<forall>page \<in> set pdfDoc. hasContents page) \<and>
          loadPdf w path = Some pdfDoc \<longrightarrow>
           (\<exists>first second.
              createNUpLayout w path FourUp None = Inr [sheetPage first, sheetPage second] \<and>
              length first = 4 \<and> length second = 1 \<and>
              pagesPerSheet FourUp - length second = 3))"
proof -
  have general: "\<exists>sheets. sheetLoop lay' doc ps' 0 [] = Inr sheets \<and>
           saveComposed (map sheetPage sheets) = map sheetPage sheets \<and>
           length sheets = nat \<lceil>real (length ps') / real (pagesPerSheet lay')\<rceil> \<and>
           (\<forall>t < length sheets.
              0 < length (sheets ! t) \<and>
              length (sheets ! t) = min (pagesPerSheet lay') (length ps' - t * pagesPerSheet lay')) \<and>
           (\<forall>t. Suc t < length sheets \<longrightarrow> length (sheets ! t) = pagesPerSheet lay') \<and>
           length (last sheets) = length ps' - (length sheets - 1) * pagesPerSheet lay' \<and>
           length (last sheets) \<le> pagesPerSheet lay'"
    if valid: "validPages doc ps'" and emb: "embeddable doc ps'" and some: "ps' \<noteq> []"
    for lay' doc ps'
  proof -
    let ?k = "pagesPerSheet lay'"
    let ?n = "sheetCount ?k (length ps')"
    define sheets where "sheets = map (\<lambda>t. sheetAt lay' doc ps' (t * ?k)) [0..<?n]"
    have k: "0 < ?k" by (rule pagesPerSheet_pos)
    have run: "sheetLoop lay' doc ps' 0 [] = Inr sheets"
      unfolding sheets_def by (rule sheetLoop_sheets [OF valid emb])
    have len: "length sheets = ?n" by (simp add: sheets_def)
    from some have "?n \<noteq> 0" by (simp add: sheetCount_zero [OF k])
    with len have nonempty: "sheets \<noteq> []" by auto
    then have kept: "saveComposed (map sheetPage sheets) = map sheetPage sheets"
      by (simp add: saveComposed_simps)
    have nth: "sheets ! t = sheetAt lay' doc ps' (t * ?k)" if "t < ?n" for t
      using that by (simp add: sheets_def)
    have count: "length sheets = nat \<lceil>real (length ps') / real ?k\<rceil>"
      using sheetCount_ceiling [OF k] len by simp
    have each: "0 < length (sheets ! t) \<and>
                length (sheets ! t) = min ?k (length ps' - t * ?k)" if "t < length sheets" for t
    proof -
      from that len have t: "t < ?n" by simp
      from sheetCount_covers [OF k t] have "0 < length ps' - t * ?k" by simp
      with k nth [OF t] show ?thesis by (simp add: length_sheetAt)
    qed
    have full: "length (sheets ! t) = ?k" if "Suc t < length sheets" for t
    proof -
      from that len have t: "Suc t < ?n" by simp
      from sheetCount_full [OF k t] nth [of t] t show ?thesis
        by (simp add: length_sheetAt)
    qed
    have final: "length (last sheets) = length ps' - (length sheets - 1) * ?k \<and>
                 length (last sheets) \<le> ?k"
    proof -
      from nonempty have "length sheets - 1 < length sheets" by simp
      moreover have "length ps' - (length sheets - 1) * ?k \<le> ?k"
      proof -
        from nonempty len have "(length sheets - 1) * ?k + ?k = ?n * ?k"
          by (cases ?n) simp_all
        with sheetCount_enough [OF k, of "length ps'"] show ?thesis by linarith
      qed
      ultimately show ?thesis
        using each [of "length sheets - 1"] nonempty by (simp add: last_conv_nth)
    qed
    from run kept count each full final show ?thesis by blast
  qed
  have sizes: "pagesPerSheet TwoUp = 2 \<and> pagesPerSheet FourUp = 4"
    by (simp add: pagesPerSheet_def)
  have written: "loadPdf w path = Some pdfDoc \<and> ps = pagesToProcess (int (length pdfDoc)) r
            \<longrightarrow> (\<exists>sheets. createNUpLayout w path lay r = Inr (map sheetPage sheets) \<and>
                   length sheets = nat \<lceil>real (length ps) / real (pagesPerSheet lay)\<rceil>)"
  proof
    assume a: "loadPdf w path = Some pdfDoc \<and> ps = pagesToProcess (int (length pdfDoc)) r"
    from general [OF assms, of lay] obtain sheets where
      run: "sheetLoop lay pdfDoc ps 0 [] = Inr sheets" and
      kept: "saveComposed (map sheetPage sheets) = map sheetPage sheets" and
      count: "length sheets = nat \<lceil>real (length ps) / real (pagesPerSheet lay)\<rceil>"
      by blast
    from a run kept have "createNUpLayout w path lay r = Inr (map sheetPage sheets)"
      by (simp add: createNUpLayout_def)
    with count show "\<exists>sheets. createNUpLayout w path lay r = Inr (map sheetPage sheets) \<and>
                   length sheets = nat \<lceil>real (length ps) / real (pagesPerSheet lay)\<rceil>"
      by blast
  qed
  have none: "loadPdf w path = Some pdfDoc \<and> pagesToProcess (int (length pdfDoc)) r = []
            \<longrightarrow> createNUpLayout w path lay r = Inr [defaultComposedPage]"
  proof
    assume a: "loadPdf w path = Some pdfDoc \<and> pagesToProcess (int (length pdfDoc)) r = []"
    have "sheetLoop lay pdfDoc [] 0 [] = Inr []"
      by (subst sheetLoop.simps) simp
    with a show "createNUpLayout w path lay r = Inr [defaultComposedPage]"
      by (simp add: createNUpLayout_def saveComposed_simps)
  qed
  have five: "length pdfDoc = 5 \<and> (\<forall>page \<in> set pdfDoc. hasContents page) \<and>
          loadPdf w path = Some pdfDoc \<longrightarrow>
           (\<exists>first second.
              createNUpLayout w path FourUp None = Inr [sheetPage first, sheetPage second] \<and>
              length first = 4 \<and> length second = 1 \<and>
              pagesPerSheet FourUp - length second = 3)"
  proof
    assume a: "length pdfDoc = 5 \<and> (\<forall>page \<in> set pdfDoc. hasContents page) \<and>
          loadPdf w path = Some pdfDoc"
    let ?ps = "pagesToProcess 5 None"
    have ps: "length ?ps = 5" by (simp add: pagesToProcess_def)
    then have some: "?ps \<noteq> []" by auto
    have valid: "validPages pdfDoc ?ps"
      using pagesToProcess_bounds [of 5 None] a by (auto simp: validPages_def)
    have emb: "embeddable pdfDoc ?ps"
      unfolding embeddable_def
    proof
      fix p assume "p \<in> set ?ps"
      with pagesToProcess_bounds [of 5 None] have "1 \<le> p" "p \<le> 5" by auto
      with a have "nat (p - 1) < length pdfDoc" by simp
      then have "pdfDoc ! nat (p - 1) \<in> set pdfDoc" by (rule nth_mem)
      with a show "hasContents (pdfDoc ! nat (p - 1))" by blast
    qed
    have four: "pagesPerSheet FourUp = 4" by (simp add: pagesPerSheet_def)
    from general [OF valid emb some, of FourUp] obtain sheets where
      run: "sheetLoop FourUp pdfDoc ?ps 0 [] = Inr sheets" and
      kept: "saveComposed (map sheetPage sheets) = map sheetPage sheets" and
      count: "length sheets = nat \<lceil>real (length ?ps) / real (pagesPerSheet FourUp)\<rceil>" and
      each: "\<forall>t < length sheets. 0 < length (sheets ! t) \<and>
               length (sheets ! t) = min (pagesPerSheet FourUp) (length ?ps - t * pagesPerSheet FourUp)"
      by blast
    have "\<lceil>(5::real) / 4\<rceil> = 2" by (rule ceiling_unique) simp_all
    with count have two: "length sheets = 2" by (simp add: ps four)
    then obtain first second where sh: "sheets = [first, second]"
      by (cases sheets; cases "tl sheets") auto
    from each two have "length (sheets ! 0) = 4" "length (sheets ! 1) = 1"
      by (simp_all add: ps four)
    with sh have sizes: "length first = 4" "length second = 1" by simp_all
    then have blank: "pagesPerSheet FourUp - length second = 3" by (simp add: four)
    have "createNUpLayout w path FourUp None = Inr [sheetPage first, sheetPage second]"
      using a run kept sh by (simp add: createNUpLayout_def)
    with sizes blank show "\<exists>first second.
              createNUpLayout w path FourUp None = Inr [sheetPage first, sheetPage second] \<and>
              length first = 4 \<and> length second = 1 \<and>
              pagesPerSheet FourUp - length second = 3"
      by blast
  qed
  show ?thesis
    by (rule conjI [OF general [OF assms] conjI [OF sizes conjI [OF written conjI [OF none five]]]])
qed

text \<open>
  Five pages 2-up are three sheets, the last with one page; five pages 4-up are two, and
  they are the pages of the file; a range that selects nothing gives the blank page.
\<close>

theorem nup_sheet_count_witness:
  "validPages fivePages [1, 2, 3, 4, 5] \<and> embeddable fivePages [1, 2, 3, 4, 5] \<and>
   (\<exists>sheets. sheetLoop TwoUp fivePages [1, 2, 3, 4, 5] 0 [] = Inr sheets \<and>
      length sheets = 3 \<and> length (sheets ! 0) = 2 \<and> length (last sheets) = 1) \<and>
   (\<exists>sheets. createNUpLayout fiveWorld (js ''f.pdf'') TwoUp None = Inr (map sheetPage sheets) \<and>
      length sheets = 3) \<and>
   (\<exists>first second.
      createNUpLayout fiveWorld (js ''f.pdf'') FourUp None = Inr [sheetPage first, sheetPage second] \<and>
      length first = 4 \<and> length second = 1) \<and>
   createNUpLayout fiveWorld (js ''f.pdf'') TwoUp (Some (js ''abc'')) = Inr [defaultComposedPage]"
proof -
  have none_selected: "pagesToProcess (int (length fivePages)) (Some (js ''abc'')) = []"
    by code_simp
  have len: "length fivePages = 5" by (simp add: fivePages_def)
  then have valid: "validPages fivePages [1, 2, 3, 4, 5]"
    by (simp add: validPages_def)
  have emb: "embeddable fivePages [1, 2, 3, 4, 5]"
    by (simp add: embeddable_def fivePages_def a4Page_def)
  have some: "[1, 2, 3, 4, 5 :: int] \<noteq> []" by simp
  have all: "\<forall>page \<in> set fivePages. hasContents page"
    by (simp add: fivePages_def a4Page_def)
  have load: "loadPdf fiveWorld (js ''f.pdf'') = Some fivePages"
    by (simp add: fiveWorld_def)
  have sel: "[1, 2, 3, 4, 5] = pagesToProcess (int (length fivePages)) None"
    by (simp add: len pagesToProcess_def upto.simps)
  note inst = nup_sheet_count [OF valid emb some, of TwoUp fiveWorld "js ''f.pdf''" None]
  have two: "pagesPerSheet TwoUp = 2" by (simp add: pagesPerSheet_def)
  have c: "\<lceil>(5::real) / 2\<rceil> = 3" by (rule ceiling_unique) simp_all
  from inst [THEN conjunct1] obtain sheets where
    run: "sheetLoop TwoUp fivePages [1, 2, 3, 4, 5] 0 [] = Inr sheets" and
    count: "length sheets = nat \<lceil>real (length [1, 2, 3, 4, 5 :: int]) / real (pagesPerSheet TwoUp)\<rceil>" and
    each: "\<forall>t < length sheets. 0 < length (sheets ! t) \<and>
             length (sheets ! t) = min (pagesPerSheet TwoUp)
               (length [1, 2, 3, 4, 5 :: int] - t * pagesPerSheet TwoUp)" and
    final: "length (last sheets) = length [1, 2, 3, 4, 5 :: int] - (length sheets - 1) * pagesPerSheet TwoUp"
    by blast
  from count c have three: "length sheets = 3" by (simp add: two)
  with each have "length (sheets ! 0) = 2" by (simp add: two)
  moreover from three final have "length (last sheets) = 1" by (auto simp: two)
  ultimately have first_part: "\<exists>sheets. sheetLoop TwoUp fivePages [1, 2, 3, 4, 5] 0 [] = Inr sheets \<and>
      length sheets = 3 \<and> length (sheets ! 0) = 2 \<and> length (last sheets) = 1"
    using run three by blast
  from inst [THEN conjunct2, THEN conjunct2, THEN conjunct1] load sel
  obtain sheets' where "createNUpLayout fiveWorld (js ''f.pdf'') TwoUp None = Inr (map sheetPage sheets')"
    "length sheets' = nat \<lceil>real (length [1, 2, 3, 4, 5 :: int]) / real (pagesPerSheet TwoUp)\<rceil>"
    by blast
  with c have file_part: "\<exists>sheets. createNUpLayout fiveWorld (js ''f.pdf'') TwoUp None
      = Inr (map sheetPage sheets) \<and> length sheets = 3"
    by (auto simp: two)
  from inst [THEN conjunct2, THEN conjunct2, THEN conjunct2, THEN conjunct2] len all load
  have "\<exists>first second.
      createNUpLayout fiveWorld (js ''f.pdf'') FourUp None = Inr [sheetPage first, sheetPage second] \<and>
      length first = 4 \<and> length second = 1"
    by blast
  moreover
  from nup_sheet_count [OF valid emb some, of TwoUp fiveWorld "js ''f.pdf''" "Some (js ''abc'')",
      THEN conjunct2, THEN conjunct2, THEN conjunct2, THEN conjunct1] load none_selected
  have "createNUpLayout fiveWorld (js ''f.pdf'') TwoUp (Some (js ''abc'')) = Inr [defaultComposedPage]"
    by blast
  ultimately show ?thesis using valid emb first_part file_part by blast
qed

section \<open>Properties of the cell geometry\<close>

text \<open>
  The grid and what \<open>drawCell\<close> passes to \<open>drawPage\<close>.
\<close>

lemma cell_sizes:
  "cols lay = 2" "rows lay = (if lay = TwoUp then 1 else 2)"
  "cellWidth lay = 421" "cellHeight lay = (if lay = TwoUp then 595 else 595 / 2)"
  by (simp_all add: cols_def rows_def cellWidth_def cellHeight_def sheetWidth_def sheetHeight_def)

lemma drawCell_fields:
  "embeddedPage (drawCell lay page j) = page"
  "draw_width (drawCell lay page j) =
     width page * (min (cellWidth lay / width page) (cellHeight lay / height page) * 0.95)"
  "draw_height (drawCell lay page j) =
     height page * (min (cellWidth lay / width page) (cellHeight lay / height page) * 0.95)"
  "draw_x (drawCell lay page j) =
     real (j mod cols lay) * cellWidth lay + (cellWidth lay - draw_width (drawCell lay page j)) / 2"
  "draw_y (drawCell lay page j) =
     sheetHeight - (real (j div cols lay) + 1) * cellHeight lay
       + (cellHeight lay - draw_height (drawCell lay page j)) / 2"
  by (simp_all add: drawCell_def Let_def)

lemma drawCell_fits:
  assumes "0 < width page" "0 < height page"
  shows "0 < draw_width (drawCell lay page j)" "draw_width (drawCell lay page j) \<le> cellWidth lay"
        "0 < draw_height (drawCell lay page j)" "draw_height (drawCell lay page j) \<le> cellHeight lay"
proof -
  let ?s = "min (cellWidth lay / width page) (cellHeight lay / height page)"
  have cw: "0 < cellWidth lay" and ch: "0 < cellHeight lay"
    by (simp_all add: cell_sizes)
  from assms cw ch have s: "0 < ?s" by simp
  have "width page * ?s \<le> width page * (cellWidth lay / width page)"
    using assms(1) by (intro mult_left_mono) simp_all
  also have "\<dots> = cellWidth lay" using assms(1) by simp
  finally have w: "width page * ?s \<le> cellWidth lay" .
  have "height page * ?s \<le> height page * (cellHeight lay / height page)"
    using assms(2) by (intro mult_left_mono) simp_all
  also have "\<dots> = cellHeight lay" using assms(2) by simp
  finally have h: "height page * ?s \<le> cellHeight lay" .
  from assms s have pw: "0 < width page * ?s" and ph: "0 < height page * ?s" by simp_all
  have shrink: "x * 0.95 \<le> x" "0 < x * 0.95" if "0 < x" for x :: real
    using that by simp_all
  have eqw: "draw_width (drawCell lay page j) = (width page * ?s) * 0.95"
    and eqh: "draw_height (drawCell lay page j) = (height page * ?s) * 0.95"
    by (simp_all add: drawCell_fields)
  show "0 < draw_width (drawCell lay page j)" unfolding eqw using shrink(2) [OF pw] .
  show "draw_width (drawCell lay page j) \<le> cellWidth lay"
    unfolding eqw using shrink(1) [OF pw] w by linarith
  show "0 < draw_height (drawCell lay page j)" unfolding eqh using shrink(2) [OF ph] .
  show "draw_height (drawCell lay page j) \<le> cellHeight lay"
    unfolding eqh using shrink(1) [OF ph] h by linarith
qed

text \<open>
  Claim C7. On every sheet the page at position \<open>j\<close> of the chunk is drawn in the cell of
  column \<open>j mod cols\<close> and row \<open>j div cols\<close> of a grid of 1 row by 2 columns for 2-up and of
  2 rows by 2 columns for 4-up. Row 0 is the top row: in the coordinates of the sheet, whose
  origin is the lower left corner, the cell of row \<open>r\<close> lies between
  \<open>sheetHeight - (r + 1) * cellHeight\<close> and \<open>sheetHeight - r * cellHeight\<close>. The page is drawn
  with both sides multiplied by \<open>min (cellWidth / width) (cellHeight / height) * 0.95\<close>, its
  centre is the centre of the cell, and it lies inside the cell. The arithmetic is that of
  the real numbers.
\<close>

theorem nup_cells_row_major_centred:
  assumes "validPages pdfDoc ps"
    and "sheetLoop lay pdfDoc ps 0 [] = Inr sheets"
    and "t < length sheets" and "j < length (sheets ! t)"
    and "0 < width (pdfDoc ! nat (ps ! (t * pagesPerSheet lay + j) - 1))"
    and "0 < height (pdfDoc ! nat (ps ! (t * pagesPerSheet lay + j) - 1))"
  shows "(let page = pdfDoc ! nat (ps ! (t * pagesPerSheet lay + j) - 1);
              placed = sheets ! t ! j;
              col = j mod cols lay;
              row = j div cols lay;
              scale = min (cellWidth lay / width page) (cellHeight lay / height page) * 0.95
          in (lay = TwoUp \<longrightarrow> rows lay = 1 \<and> cols lay = 2) \<and>
             (lay = FourUp \<longrightarrow> rows lay = 2 \<and> cols lay = 2) \<and>
             col < cols lay \<and> row < rows lay \<and>
             embeddedPage placed = page \<and>
             draw_width placed = width page * scale \<and>
             draw_height placed = height page * scale \<and>
             draw_x placed + draw_width placed / 2 = (real col + 1 / 2) * cellWidth lay \<and>
             draw_y placed + draw_height placed / 2
               = sheetHeight - (real row + 1 / 2) * cellHeight lay \<and>
             real col * cellWidth lay \<le> draw_x placed \<and>
             draw_x placed + draw_width placed \<le> (real col + 1) * cellWidth lay \<and>
             sheetHeight - (real row + 1) * cellHeight lay \<le> draw_y placed \<and>
             draw_y placed + draw_height placed \<le> sheetHeight - real row * cellHeight lay)"
proof -
  let ?k = "pagesPerSheet lay"
  let ?page = "pdfDoc ! nat (ps ! (t * ?k + j) - 1)"
  let ?placed = "drawCell lay ?page j"
  from sheetLoop_Inr [OF assms(2)]
  have sheets: "sheets = map (\<lambda>t. sheetAt lay pdfDoc ps (t * ?k)) [0..<sheetCount ?k (length ps)]"
    by simp
  with assms(3) have sheet: "sheets ! t = sheetAt lay pdfDoc ps (t * ?k)"
    by simp
  with assms(4) have placed: "sheets ! t ! j = ?placed"
    by (simp add: nth_sheetAt)
  from assms(4) sheet have "j < ?k"
    by (simp add: length_sheetAt)
  then have cell: "j mod cols lay < cols lay" "j div cols lay < rows lay"
    by (auto simp: cell_sizes pagesPerSheet_def split: if_splits)
  have grid: "(lay = TwoUp \<longrightarrow> rows lay = 1 \<and> cols lay = 2) \<and>
              (lay = FourUp \<longrightarrow> rows lay = 2 \<and> cols lay = 2)"
    by (simp add: cell_sizes)
  note fit = drawCell_fits [OF assms(5) assms(6), of lay j]
  have cx: "draw_x ?placed + draw_width ?placed / 2
              = (real (j mod cols lay) + 1 / 2) * cellWidth lay"
    by (simp add: drawCell_fields(4) field_simps)
  have cy: "draw_y ?placed + draw_height ?placed / 2
              = sheetHeight - (real (j div cols lay) + 1 / 2) * cellHeight lay"
    by (simp add: drawCell_fields(5) field_simps)
  have left: "real (j mod cols lay) * cellWidth lay \<le> draw_x ?placed"
    using fit(2) by (simp add: drawCell_fields(4))
  have right: "draw_x ?placed + draw_width ?placed \<le> (real (j mod cols lay) + 1) * cellWidth lay"
    using fit(2) by (simp add: drawCell_fields(4) field_simps)
  have bottom: "sheetHeight - (real (j div cols lay) + 1) * cellHeight lay \<le> draw_y ?placed"
    using fit(4) by (simp add: drawCell_fields(5))
  have top: "draw_y ?placed + draw_height ?placed
               \<le> sheetHeight - real (j div cols lay) * cellHeight lay"
    using fit(4) by (simp add: drawCell_fields(5) field_simps)
  show ?thesis
    unfolding Let_def placed
    using grid cell cx cy left right bottom top
    by (simp only: drawCell_fields(1,2,3) simp_thms)
qed

text \<open>
  The fourth of five A4 pages, 4-up: the lower right cell, with centre (631.5, 148.75).
\<close>

theorem nup_cells_row_major_centred_witness:
  "\<exists>sheets. sheetLoop FourUp fivePages [1, 2, 3, 4, 5] 0 [] = Inr sheets \<and>
      3 < length (sheets ! 0) \<and>
      embeddedPage (sheets ! 0 ! 3) = a4Page 4 \<and>
      draw_x (sheets ! 0 ! 3) + draw_width (sheets ! 0 ! 3) / 2 = 1263 / 2 \<and>
      draw_y (sheets ! 0 ! 3) + draw_height (sheets ! 0 ! 3) / 2 = 595 / 4"
proof -
  define sheets where
    "sheets = map (\<lambda>t. sheetAt FourUp fivePages [1, 2, 3, 4, 5] (t * 4)) [0..<2]"
  have four: "pagesPerSheet FourUp = 4" by (simp add: pagesPerSheet_def)
  have two: "sheetCount 4 (length [1, 2, 3, 4, 5 :: int]) = 2"
    by (simp add: sheetCount_def)
  have valid: "validPages fivePages [1, 2, 3, 4, 5]"
    by (simp add: validPages_def fivePages_def)
  have emb: "embeddable fivePages [1, 2, 3, 4, 5]"
    by (simp add: embeddable_def fivePages_def a4Page_def)
  have run: "sheetLoop FourUp fivePages [1, 2, 3, 4, 5] 0 [] = Inr sheets"
    using sheetLoop_sheets [OF valid emb, of FourUp] unfolding four two sheets_def .
  have t: "0 < length sheets" by (simp add: sheets_def)
  have first: "sheets ! 0 = sheetAt FourUp fivePages [1, 2, 3, 4, 5] 0"
    by (simp add: sheets_def)
  have j: "3 < length (sheets ! 0)"
    by (simp add: first length_sheetAt four)
  have page: "fivePages ! nat ([1, 2, 3, 4, 5] ! (0 * pagesPerSheet FourUp + 3) - 1) = a4Page 4"
    by (simp add: fivePages_def)
  have w: "0 < width (fivePages ! nat ([1, 2, 3, 4, 5] ! (0 * pagesPerSheet FourUp + 3) - 1))"
    and h: "0 < height (fivePages ! nat ([1, 2, 3, 4, 5] ! (0 * pagesPerSheet FourUp + 3) - 1))"
    unfolding page by (simp_all add: a4Page_def)
  from nup_cells_row_major_centred [OF valid run t j w h]
  have "embeddedPage (sheets ! 0 ! 3) = a4Page 4 \<and>
      draw_x (sheets ! 0 ! 3) + draw_width (sheets ! 0 ! 3) / 2 = 1263 / 2 \<and>
      draw_y (sheets ! 0 ! 3) + draw_height (sheets ! 0 ! 3) / 2 = 595 / 4"
    unfolding Let_def page by (simp add: cell_sizes sheetHeight_def)
  with run j show ?thesis by blast
qed

section \<open>Properties of the print server\<close>

text \<open>
  The extraction never fails on a loaded document: its page numbers are pages of it.
\<close>

lemma extractOddEvenPages_pagesOf:
  "loadPdf w path = Some pdfDoc \<Longrightarrow>
   extractOddEvenPages w path parity r =
     Inr (save (pagesOf pdfDoc
            (filter (\<lambda>p. if parity = Odd then odd p else even p)
               (pagesToProcess (int (length pdfDoc)) r))))"
  by (simp add: extractOddEvenPages_ok pagesOf_def filteredPages_parity)

lemma printHandler_duplex:
  assumes "settings req = Some st" and "duplex st"
    and "filename req \<noteq> []" and "pathExists w (filename req)"
    and "loadPdf w (filename req) = Some pdfDoc"
    and "printFile w
           (ExtractedFile (save (pagesOf pdfDoc (filter odd (pagesToProcess (int (length pdfDoc)) (pageRange st))))))
           (printerName req) (js ''Print Job - '' @ filename req) (copiesOrOne (copies st))
         = Some cupsJobId"
  shows "printHandler w jobId req srv =
           (Accepted jobId cupsJobId
              \<lparr> id' = jobId, status = AwaitingEvenPages,
                message = Some (js ''Odd pages sent to printer. Please flip the paper and print even pages.''),
                totalPages = Some (int (length pdfDoc)), currentStep = Some Even \<rparr>,
            \<lparr> printJobs = (printJobs srv)(jobId \<mapsto>
                 \<lparr> id' = jobId, status = AwaitingEvenPages,
                   message = Some (js ''Odd pages sent to printer. Please flip the paper and print even pages.''),
                   totalPages = Some (int (length pdfDoc)), currentStep = Some Even \<rparr>),
              spooled = spooled srv @
                [\<lparr> document = ExtractedFile (save (pagesOf pdfDoc
                      (filter odd (pagesToProcess (int (length pdfDoc)) (pageRange st))))),
                   printer = printerName req, jobName = js ''Print Job - '' @ filename req,
                   copiesSent = copiesOrOne (copies st) \<rparr>] \<rparr>)"
proof -
  have ex: "extractOddEvenPages w (filename req) Odd (pageRange st) = Inr
              (save (pagesOf pdfDoc (filter odd (pagesToProcess (int (length pdfDoc)) (pageRange st)))))"
    using extractOddEvenPages_pagesOf [OF assms(5), of Odd "pageRange st"] by simp
  have count: "getPageCount w (filename req) = Inr (int (length pdfDoc))"
    by (simp add: getPageCount_def assms(5))
  show ?thesis
    using assms(1,2,3,4,6)
    by (simp add: printHandler_def processBySettings_def ex count Let_def setJob_def spool_def)
qed

text \<open>
  Claim C1. A submission with \<open>duplex = true\<close> whose file exists and loads and whose
  spooler call succeeds is answered with the job, hands the spooler the saved document of
  the odd pages of the page list (the parsed range when one is given, every page
  otherwise) and no other document, and leaves the job in state \<open>awaiting-even-pages\<close> with
  \<open>currentStep = even\<close> and \<open>totalPages\<close> the page count of the uploaded document. The
  saved document is exactly the odd pages when there is one; when the page list has no odd
  page, no page is extracted and the file holds the one blank page that \<open>save\<close> adds. The
  layout setting has no part in it: the handler does the same for every value of
  \<open>layout\<close>.
\<close>

theorem duplex_submission_awaits_even_pages:
  assumes "settings req = Some st" and "duplex st"
    and "filename req \<noteq> []" and "pathExists w (filename req)"
    and "loadPdf w (filename req) = Some pdfDoc"
    and "printFile w
           (ExtractedFile (save (pagesOf pdfDoc (filter odd (pagesToProcess (int (length pdfDoc)) (pageRange st))))))
           (printerName req) (js ''Print Job - '' @ filename req) (copiesOrOne (copies st))
         = Some cupsJobId"
  shows "\<exists>job srv'.
           printHandler w jobId req srv = (Accepted jobId cupsJobId job, srv') \<and>
           printJobs srv' = (printJobs srv)(jobId \<mapsto> job) \<and>
           status job = AwaitingEvenPages \<and>
           currentStep job = Some Even \<and>
           totalPages job = Some (int (length pdfDoc)) \<and>
           spooled srv' = spooled srv @
             [\<lparr> document = ExtractedFile (save (pagesOf pdfDoc
                   (filter odd (pagesToProcess (int (length pdfDoc)) (pageRange st))))),
                printer = printerName req, jobName = js ''Print Job - '' @ filename req,
                copiesSent = copiesOrOne (copies st) \<rparr>] \<and>
           (filter odd (pagesToProcess (int (length pdfDoc)) (pageRange st)) \<noteq> []
              \<longrightarrow> save (pagesOf pdfDoc (filter odd (pagesToProcess (int (length pdfDoc)) (pageRange st))))
                    = pagesOf pdfDoc (filter odd (pagesToProcess (int (length pdfDoc)) (pageRange st)))) \<and>
           (filter odd (pagesToProcess (int (length pdfDoc)) (pageRange st)) = []
              \<longrightarrow> save (pagesOf pdfDoc (filter odd (pagesToProcess (int (length pdfDoc)) (pageRange st))))
                    = [defaultPage]) \<and>
           (\<forall>l. printHandler w jobId (req \<lparr> settings := Some (st \<lparr> layout := l \<rparr>) \<rparr>) srv
                  = printHandler w jobId req srv)"
proof -
  have saved: "ps \<noteq> [] \<longrightarrow> save (pagesOf pdfDoc ps) = pagesOf pdfDoc ps"
    "ps = [] \<longrightarrow> save (pagesOf pdfDoc ps) = [defaultPage]" for ps
    by (simp_all add: save_simps pagesOf_def)
  note here = printHandler_duplex [OF assms, of jobId srv]
  have "printHandler w jobId (req \<lparr> settings := Some (st \<lparr> layout := l \<rparr>) \<rparr>) srv
          = printHandler w jobId req srv" for l
  proof -
    let ?req = "req \<lparr> settings := Some (st \<lparr> layout := l \<rparr>) \<rparr>"
    let ?st = "st \<lparr> layout := l \<rparr>"
    have "printHandler w jobId ?req srv =
           (Accepted jobId cupsJobId
              \<lparr> id' = jobId, status = AwaitingEvenPages,
                message = Some (js ''Odd pages sent to printer. Please flip the paper and print even pages.''),
                totalPages = Some (int (length pdfDoc)), currentStep = Some Even \<rparr>,
            \<lparr> printJobs = (printJobs srv)(jobId \<mapsto>
                 \<lparr> id' = jobId, status = AwaitingEvenPages,
                   message = Some (js ''Odd pages sent to printer. Please flip the paper and print even pages.''),
                   totalPages = Some (int (length pdfDoc)), currentStep = Some Even \<rparr>),
              spooled = spooled srv @
                [\<lparr> document = ExtractedFile (save (pagesOf pdfDoc
                      (filter odd (pagesToProcess (int (length pdfDoc)) (pageRange ?st))))),
                   printer = printerName ?req, jobName = js ''Print Job - '' @ filename ?req,
                   copiesSent = copiesOrOne (copies ?st) \<rparr>] \<rparr>)"
      using assms by (intro printHandler_duplex) simp_all
    with here show ?thesis by simp
  qed
  with here saved show ?thesis by simp
qed

text \<open>
  The passes of the examples, evaluated.
\<close>

lemma odd_pass_1_4:
  "map content (save (pagesOf tenPages
     (filter odd (pagesToProcess (int (length tenPages)) (Some (js ''1-4'')))))) = [1, 3]"
  by code_simp

lemma even_pass_full:
  "map content (save (pagesOf tenPages
     (filter even (pagesToProcess (int (length tenPages)) None)))) = [2, 4, 6, 8, 10]"
  by code_simp

lemma even_pass_1_4:
  "map content (save (pagesOf tenPages
     (filter even (pagesToProcess (int (length tenPages)) (Some (js ''1-4'')))))) = [2, 4]"
  by code_simp

text \<open>
  A duplex request for \<open>"1-4"\<close> of ten pages with layout 4-up: pages 1 and 3 are printed
  and the job records 10 pages. A duplex request for the page \<open>"2"\<close>: the blank page is
  printed and the job records 10 pages.
\<close>

theorem duplex_submission_awaits_even_pages_witness:
  "(\<exists>job srv'.
     printHandler tenWorld (js ''job-1'')
       \<lparr> filename = js ''doc.pdf'', settings = Some (duplexRange \<lparr> layout := FourUp \<rparr>),
         printerName = js ''office'' \<rparr> emptyServer
       = (Accepted (js ''job-1'') 17 job, srv') \<and>
     status job = AwaitingEvenPages \<and> currentStep job = Some Even \<and>
     totalPages job = Some 10 \<and>
     map printedContent (spooled srv') = [[1, 3]]) \<and>
   (\<exists>job srv'.
     printHandler tenWorld (js ''job-2'')
       \<lparr> filename = js ''doc.pdf'', settings = Some (duplexRange \<lparr> pageRange := Some (js ''2'') \<rparr>),
         printerName = js ''office'' \<rparr> emptyServer
       = (Accepted (js ''job-2'') 17 job, srv') \<and>
     status job = AwaitingEvenPages \<and> totalPages job = Some 10 \<and>
     map document (spooled srv') = [ExtractedFile [defaultPage]])"
proof -
  let ?req = "\<lparr> filename = js ''doc.pdf'', settings = Some (duplexRange \<lparr> layout := FourUp \<rparr>),
                printerName = js ''office'' \<rparr>"
  let ?st = "duplexRange \<lparr> layout := FourUp \<rparr>"
  have h1: "settings ?req = Some ?st" by simp
  have h2: "duplex ?st" by (simp add: duplexRange_def)
  have h3: "filename ?req \<noteq> []" by (simp add: js_def)
  have h4: "pathExists tenWorld (filename ?req)" by (simp add: tenWorld_def)
  have h5: "loadPdf tenWorld (filename ?req) = Some tenPages" by (simp add: tenWorld_def)
  have h6: "printFile tenWorld
           (ExtractedFile (save (pagesOf tenPages (filter odd (pagesToProcess (int (length tenPages)) (pageRange ?st))))))
           (printerName ?req) (js ''Print Job - '' @ filename ?req) (copiesOrOne (copies ?st))
         = Some 17"
    by (simp add: tenWorld_def)
  have range: "pageRange ?st = Some (js ''1-4'')" by (simp add: duplexRange_def)
  have ten: "int (length tenPages) = 10" by (simp add: tenPages_def)
  from duplex_submission_awaits_even_pages [OF h1 h2 h3 h4 h5 h6, of "js ''job-1''" emptyServer]
  obtain job srv' where
    run: "printHandler tenWorld (js ''job-1'') ?req emptyServer = (Accepted (js ''job-1'') 17 job, srv')"
    and job: "status job = AwaitingEvenPages" "currentStep job = Some Even"
       "totalPages job = Some (int (length tenPages))"
    and sp: "spooled srv' = spooled emptyServer @
             [\<lparr> document = ExtractedFile (save (pagesOf tenPages
                   (filter odd (pagesToProcess (int (length tenPages)) (pageRange ?st))))),
                printer = printerName ?req, jobName = js ''Print Job - '' @ filename ?req,
                copiesSent = copiesOrOne (copies ?st) \<rparr>]"
    by blast
  from sp have "map printedContent (spooled srv') = [[1, 3]]"
    unfolding range by (simp add: emptyServer_def printedContent_def odd_pass_1_4)
  with run job ten have first: "\<exists>job srv'.
     printHandler tenWorld (js ''job-1'') ?req emptyServer = (Accepted (js ''job-1'') 17 job, srv') \<and>
     status job = AwaitingEvenPages \<and> currentStep job = Some Even \<and>
     totalPages job = Some 10 \<and>
     map printedContent (spooled srv') = [[1, 3]]"
    by auto
  let ?req2 = "\<lparr> filename = js ''doc.pdf'',
                 settings = Some (duplexRange \<lparr> pageRange := Some (js ''2'') \<rparr>),
                 printerName = js ''office'' \<rparr>"
  let ?st2 = "duplexRange \<lparr> pageRange := Some (js ''2'') \<rparr>"
  have g1: "settings ?req2 = Some ?st2" by simp
  have g2: "duplex ?st2" by (simp add: duplexRange_def)
  have g3: "filename ?req2 \<noteq> []" by (simp add: js_def)
  have g4: "pathExists tenWorld (filename ?req2)" by (simp add: tenWorld_def)
  have g5: "loadPdf tenWorld (filename ?req2) = Some tenPages" by (simp add: tenWorld_def)
  have g6: "printFile tenWorld
           (ExtractedFile (save (pagesOf tenPages (filter odd (pagesToProcess (int (length tenPages)) (pageRange ?st2))))))
           (printerName ?req2) (js ''Print Job - '' @ filename ?req2) (copiesOrOne (copies ?st2))
         = Some 17"
    by (simp add: tenWorld_def)
  have no_odd: "filter odd (pagesToProcess (int (length tenPages)) (Some (js ''2''))) = []"
    by code_simp
  have range2: "pageRange ?st2 = Some (js ''2'')" by simp
  from duplex_submission_awaits_even_pages [OF g1 g2 g3 g4 g5 g6, of "js ''job-2''" emptyServer]
  obtain job2 srv2 where
    run2: "printHandler tenWorld (js ''job-2'') ?req2 emptyServer = (Accepted (js ''job-2'') 17 job2, srv2)"
    and job2: "status job2 = AwaitingEvenPages" "totalPages job2 = Some (int (length tenPages))"
    and sp2: "spooled srv2 = spooled emptyServer @
             [\<lparr> document = ExtractedFile (save (pagesOf tenPages
                   (filter odd (pagesToProcess (int (length tenPages)) (pageRange ?st2))))),
                printer = printerName ?req2, jobName = js ''Print Job - '' @ filename ?req2,
                copiesSent = copiesOrOne (copies ?st2) \<rparr>]"
    and blank: "filter odd (pagesToProcess (int (length tenPages)) (pageRange ?st2)) = []
              \<longrightarrow> save (pagesOf tenPages (filter odd (pagesToProcess (int (length tenPages)) (pageRange ?st2))))
                    = [defaultPage]"
    by blast
  from blank no_odd have "save (pagesOf tenPages
      (filter odd (pagesToProcess (int (length tenPages)) (pageRange ?st2)))) = [defaultPage]"
    unfolding range2 by blast
  with sp2 have "map document (spooled srv2) = [ExtractedFile [defaultPage]]"
    by (simp add: emptyServer_def)
  with run2 job2 ten have second: "\<exists>job srv'.
     printHandler tenWorld (js ''job-2'') ?req2 emptyServer = (Accepted (js ''job-2'') 17 job, srv') \<and>
     status job = AwaitingEvenPages \<and> totalPages job = Some 10 \<and>
     map document (spooled srv') = [ExtractedFile [defaultPage]]"
    by auto
  from first second show ?thesis by (rule conjI)
qed

lemma printEvenHandler_rejected:
  "printEvenHandler w jobId file pr r n srv = (Rejected code msg, srv') \<Longrightarrow> srv' = srv"
  by (auto simp: printEvenHandler_def Let_def split: if_splits option.splits sum.splits)

lemma printEvenHandler_accepted:
  assumes "printEvenHandler w jobId file pr r n srv = (Accepted jid cups job, srv')"
  shows "jid = jobId \<and> status job = Completed \<and>
         (\<exists>old. printJobs srv jobId = Some old \<and> status old = AwaitingEvenPages) \<and>
         printJobs srv' = (printJobs srv)(jobId \<mapsto> job)"
  using assms
  by (auto simp: printEvenHandler_def Let_def setJob_def spool_def
           split: if_splits option.splits sum.splits)

lemma printEvenHandler_success:
  assumes "jobId \<noteq> []" "file \<noteq> []"
    and "printJobs srv jobId = Some old" "status old = AwaitingEvenPages"
    and "pathExists w file" "loadPdf w file = Some pdfDoc"
    and "printFile w
           (ExtractedFile (save (pagesOf pdfDoc (filter even (pagesToProcess (int (length pdfDoc)) r)))))
           pr (js ''Print Job - '' @ file @ js '' (Even Pages)'') (copiesOrOne n) = Some cups"
  shows "printEvenHandler w jobId file pr r n srv =
           (Accepted jobId cups
              \<lparr> id' = jobId, status = Completed, message = Some (js ''Duplex printing completed''),
                totalPages = None, currentStep = None \<rparr>,
            \<lparr> printJobs = (printJobs srv)(jobId \<mapsto>
                 \<lparr> id' = jobId, status = Completed,
                   message = Some (js ''Duplex printing completed''),
                   totalPages = None, currentStep = None \<rparr>),
              spooled = spooled srv @
                [\<lparr> document = ExtractedFile
                     (save (pagesOf pdfDoc (filter even (pagesToProcess (int (length pdfDoc)) r)))),
                   printer = pr, jobName = js ''Print Job - '' @ file @ js '' (Even Pages)'',
                   copiesSent = copiesOrOne n \<rparr>] \<rparr>)"
proof -
  have ex: "extractOddEvenPages w file Even r = Inr
              (save (pagesOf pdfDoc (filter even (pagesToProcess (int (length pdfDoc)) r))))"
    using extractOddEvenPages_pagesOf [OF assms(6), of Even r] by simp
  show ?thesis
    using assms(1,2,3,4,5,7)
    by (simp add: printEvenHandler_def ex Let_def setJob_def spool_def)
qed

text \<open>
  Claim C2. \<open>POST /api/print-even\<close> for a job id that is not in the table, or whose job
  is not in state \<open>awaiting-even-pages\<close>, is answered with the error 400 and leaves the whole
  state of the server as it was. Whenever the request is accepted, the job was in state
  \<open>awaiting-even-pages\<close> and is now \<open>completed\<close>; and it is accepted when the job is in
  that state, the file exists and loads, and the spooler takes the even pages.
\<close>

theorem resume_needs_awaiting_job:
  "((printJobs srv jobId = None \<or>
       (\<exists>job. printJobs srv jobId = Some job \<and> status job \<noteq> AwaitingEvenPages))
      \<longrightarrow> (\<exists>msg. printEvenHandler w jobId fname pr r n srv = (Rejected 400 msg, srv))) \<and>
   (\<forall>jid cups job srv'.
      printEvenHandler w jobId fname pr r n srv = (Accepted jid cups job, srv')
      \<longrightarrow> jid = jobId \<and>
          (\<exists>old. printJobs srv jobId = Some old \<and> status old = AwaitingEvenPages) \<and>
          printJobs srv' = (printJobs srv)(jobId \<mapsto> job) \<and> status job = Completed) \<and>
   (jobId \<noteq> [] \<and> fname \<noteq> [] \<and>
    printJobs srv jobId = Some old \<and> status old = AwaitingEvenPages \<and>
    pathExists w fname \<and> loadPdf w fname = Some pdfDoc \<and>
    printFile w
      (ExtractedFile (save (pagesOf pdfDoc (filter even (pagesToProcess (int (length pdfDoc)) r)))))
      pr (js ''Print Job - '' @ fname @ js '' (Even Pages)'') (copiesOrOne n) = Some cups
      \<longrightarrow> (\<exists>job srv'. printEvenHandler w jobId fname pr r n srv = (Accepted jobId cups job, srv') \<and>
             printJobs srv' jobId = Some job \<and> status job = Completed))"
proof -
  have missing: "\<exists>msg. printEvenHandler w jobId fname pr r n srv = (Rejected 400 msg, srv)"
    if "printJobs srv jobId = None \<or>
        (\<exists>job. printJobs srv jobId = Some job \<and> status job \<noteq> AwaitingEvenPages)"
    using that by (auto simp: printEvenHandler_def)
  have accepted: "jid = jobId \<and>
          (\<exists>old. printJobs srv jobId = Some old \<and> status old = AwaitingEvenPages) \<and>
          printJobs srv' = (printJobs srv)(jobId \<mapsto> job) \<and> status job = Completed"
    if "printEvenHandler w jobId fname pr r n srv = (Accepted jid cups job, srv')"
    for jid cups job srv'
    using printEvenHandler_accepted [OF that] by blast
  have success: "\<exists>job srv'. printEvenHandler w jobId fname pr r n srv = (Accepted jobId cups job, srv') \<and>
             printJobs srv' jobId = Some job \<and> status job = Completed"
    if "jobId \<noteq> [] \<and> fname \<noteq> [] \<and>
        printJobs srv jobId = Some old \<and> status old = AwaitingEvenPages \<and>
        pathExists w fname \<and> loadPdf w fname = Some pdfDoc \<and>
        printFile w
          (ExtractedFile (save (pagesOf pdfDoc (filter even (pagesToProcess (int (length pdfDoc)) r)))))
          pr (js ''Print Job - '' @ fname @ js '' (Even Pages)'') (copiesOrOne n) = Some cups"
  proof -
    from that have a: "jobId \<noteq> []" "fname \<noteq> []" "printJobs srv jobId = Some old"
      "status old = AwaitingEvenPages" "pathExists w fname" "loadPdf w fname = Some pdfDoc"
      "printFile w
          (ExtractedFile (save (pagesOf pdfDoc (filter even (pagesToProcess (int (length pdfDoc)) r)))))
          pr (js ''Print Job - '' @ fname @ js '' (Even Pages)'') (copiesOrOne n) = Some cups"
      by blast+
    show ?thesis
      by (subst printEvenHandler_success [OF a]) simp
  qed
  from missing accepted success show ?thesis by blast
qed

text \<open>
  An unknown job and a completed job are refused and nothing changes; the waiting job is
  completed.
\<close>

theorem resume_needs_awaiting_job_witness:
  "(\<exists>msg. printEvenHandler tenWorld (js ''job-9'') (js ''doc.pdf'') (js ''office'') None (Some 1)
            awaitingServer = (Rejected 400 msg, awaitingServer)) \<and>
   (\<exists>msg. printEvenHandler tenWorld (js ''job-2'') (js ''doc.pdf'') (js ''office'') None (Some 1)
            awaitingServer = (Rejected 400 msg, awaitingServer)) \<and>
   (\<exists>job srv'. printEvenHandler tenWorld (js ''job-1'') (js ''doc.pdf'') (js ''office'') None (Some 1)
            awaitingServer = (Accepted (js ''job-1'') 17 job, srv') \<and>
          printJobs srv' (js ''job-1'') = Some job \<and> status job = Completed)"
proof -
  note inst = resume_needs_awaiting_job [where w = tenWorld and fname = "js ''doc.pdf''"
      and pr = "js ''office''" and r = None and n = "Some 1" and srv = awaitingServer]
  have h1: "printJobs awaitingServer (js ''job-9'') = None"
    by (simp add: awaitingServer_def js_def)
  have h2: "\<exists>job. printJobs awaitingServer (js ''job-2'') = Some job \<and> status job \<noteq> AwaitingEvenPages"
    by (simp add: awaitingServer_def js_def)
  have h3: "js ''job-1'' \<noteq> [] \<and> js ''doc.pdf'' \<noteq> [] \<and>
    printJobs awaitingServer (js ''job-1'') =
      Some \<lparr> id' = js ''job-1'', status = AwaitingEvenPages, message = None,
             totalPages = Some 10, currentStep = Some Even \<rparr> \<and>
    status \<lparr> id' = js ''job-1'', status = AwaitingEvenPages, message = None,
             totalPages = Some 10, currentStep = Some Even \<rparr> = AwaitingEvenPages \<and>
    pathExists tenWorld (js ''doc.pdf'') \<and> loadPdf tenWorld (js ''doc.pdf'') = Some tenPages \<and>
    printFile tenWorld
      (ExtractedFile (save (pagesOf tenPages (filter even (pagesToProcess (int (length tenPages)) None)))))
      (js ''office'') (js ''Print Job - '' @ js ''doc.pdf'' @ js '' (Even Pages)'') (copiesOrOne (Some 1))
      = Some 17"
    by (simp add: awaitingServer_def tenWorld_def js_def)
  from inst [where jobId = "js ''job-9''", THEN conjunct1] h1
  have w1: "\<exists>msg. printEvenHandler tenWorld (js ''job-9'') (js ''doc.pdf'') (js ''office'') None (Some 1)
            awaitingServer = (Rejected 400 msg, awaitingServer)" by blast
  from inst [where jobId = "js ''job-2''", THEN conjunct1] h2
  have w2: "\<exists>msg. printEvenHandler tenWorld (js ''job-2'') (js ''doc.pdf'') (js ''office'') None (Some 1)
            awaitingServer = (Rejected 400 msg, awaitingServer)" by blast
  from inst [where jobId = "js ''job-1''" and pdfDoc = tenPages and cups = 17, THEN conjunct2, THEN conjunct2] h3
  have w3: "\<exists>job srv'. printEvenHandler tenWorld (js ''job-1'') (js ''doc.pdf'') (js ''office'') None (Some 1)
            awaitingServer = (Accepted (js ''job-1'') 17 job, srv') \<and>
          printJobs srv' (js ''job-1'') = Some job \<and> status job = Completed" by blast
  from w1 w2 w3 show ?thesis by blast
qed

lemma processBySettings_processing:
  "processBySettings w jobId fname st = Inr (src, job) \<Longrightarrow> status job = Processing"
  by (auto simp: processBySettings_def split: if_splits sum.splits option.splits)

lemma printHandler_rejected:
  assumes "printHandler w jobId req srv = (Rejected code msg, srv')"
  shows "srv' = srv \<or> (\<exists>job. printJobs srv' = (printJobs srv)(jobId \<mapsto> job) \<and> status job = Processing)"
proof (cases "settings req")
  case None
  with assms show ?thesis by (simp add: printHandler_def)
next
  case (Some st)
  show ?thesis
  proof (cases "processBySettings w jobId (filename req) st")
    case (Inl e)
    with assms Some show ?thesis
      by (auto simp: printHandler_def split: if_splits)
  next
    case (Inr made)
    obtain src job where made: "made = (src, job)" by (cases made)
    from Inr made have "status job = Processing"
      by (auto dest: processBySettings_processing)
    with assms Some Inr made show ?thesis
      by (auto simp: printHandler_def Let_def setJob_def spool_def
               split: if_splits option.splits sum.splits)
  qed
qed

lemma dead_spooler_run:
  "printHandler deadSpoolerWorld (js ''job-1'') duplexRequest emptyServer =
     (Rejected 500 (js ''Failed to submit print job''),
      \<lparr> printJobs = [js ''job-1'' \<mapsto>
           \<lparr> id' = js ''job-1'', status = Processing,
             message = Some (js ''Printing odd pages...''),
             totalPages = None, currentStep = Some Odd \<rparr>],
        spooled = [] \<rparr>)"
proof -
  have ex: "extractOddEvenPages deadSpoolerWorld (js ''doc.pdf'') Odd (Some (js ''1-4'')) = Inr
              (save (pagesOf tenPages (filter odd (pagesToProcess (int (length tenPages)) (Some (js ''1-4''))))))"
    using extractOddEvenPages_pagesOf [of deadSpoolerWorld "js ''doc.pdf''" tenPages Odd "Some (js ''1-4'')"]
    by (simp add: deadSpoolerWorld_def)
  have name: "js ''doc.pdf'' \<noteq> []" by (simp add: js_def)
  show ?thesis
    unfolding printHandler_def processBySettings_def duplexRequest_def duplexRange_def
    by (simp add: ex name Let_def setJob_def emptyServer_def) (simp add: deadSpoolerWorld_def)
qed

text \<open>
  Claim C8, as stated, does not hold. When the spooler throws, the \<open>catch\<close> of
  \<open>POST /api/print\<close> answers 500 and does not touch the table: the entry written before the
  spooler call stays in state \<open>processing\<close>. No statement of the server assigns the status
  \<open>failed\<close>.
\<close>

theorem spooler_failure_not_marked_failed:
  "fst (printHandler deadSpoolerWorld (js ''job-1'') duplexRequest emptyServer)
     = Rejected 500 (js ''Failed to submit print job'') \<and>
   map_option status
     (printJobs (snd (printHandler deadSpoolerWorld (js ''job-1'') duplexRequest emptyServer))
        (js ''job-1'')) = Some Processing \<and>
   map_option status
     (printJobs (snd (printHandler deadSpoolerWorld (js ''job-1'') duplexRequest emptyServer))
        (js ''job-1'')) \<noteq> Some Failed"
  by (simp add: dead_spooler_run)

text \<open>
  Claim C8, amended. Whenever \<open>POST /api/print\<close> answers with an error, the state of the
  server is unchanged or its job table differs by the entry of this job, which is in state
  \<open>processing\<close>. When the document processing fails, the answer is 500 and nothing has been
  written to the table; when the spooler call fails, the answer is 500 and the entry written
  before the call stays, in state \<open>processing\<close>. An error of \<open>POST /api/print-even\<close>
  leaves the state unchanged.
\<close>

theorem failed_submission_leaves_job_processing:
  "(\<forall>code msg srv'.
      printHandler w jobId req srv = (Rejected code msg, srv')
      \<longrightarrow> srv' = srv \<or>
          (\<exists>job. printJobs srv' = (printJobs srv)(jobId \<mapsto> job) \<and> status job = Processing)) \<and>
   (settings req = Some st \<and> filename req \<noteq> [] \<and> pathExists w (filename req) \<and>
    processBySettings w jobId (filename req) st = Inl e
      \<longrightarrow> printHandler w jobId req srv = (Rejected 500 (js ''Failed to submit print job''), srv)) \<and>
   (settings req = Some st \<and> filename req \<noteq> [] \<and> pathExists w (filename req) \<and>
    processBySettings w jobId (filename req) st = Inr (src, job) \<and>
    printFile w src (printerName req) (js ''Print Job - '' @ filename req) (copiesOrOne (copies st)) = None
      \<longrightarrow> status job = Processing \<and>
          printHandler w jobId req srv
            = (Rejected 500 (js ''Failed to submit print job''),
               srv \<lparr> printJobs := (printJobs srv)(jobId \<mapsto> job) \<rparr>)) \<and>
   (\<forall>code msg srv'.
      printEvenHandler w jobId fname pr r n srv = (Rejected code msg, srv') \<longrightarrow> srv' = srv)"
proof -
  have general: "\<forall>code msg srv'.
      printHandler w jobId req srv = (Rejected code msg, srv')
      \<longrightarrow> srv' = srv \<or>
          (\<exists>job. printJobs srv' = (printJobs srv)(jobId \<mapsto> job) \<and> status job = Processing)"
    using printHandler_rejected by blast
  have processing: "printHandler w jobId req srv = (Rejected 500 (js ''Failed to submit print job''), srv)"
    if "settings req = Some st \<and> filename req \<noteq> [] \<and> pathExists w (filename req) \<and>
        processBySettings w jobId (filename req) st = Inl e"
    using that by (simp add: printHandler_def)
  have spooler: "status job = Processing \<and>
          printHandler w jobId req srv
            = (Rejected 500 (js ''Failed to submit print job''),
               srv \<lparr> printJobs := (printJobs srv)(jobId \<mapsto> job) \<rparr>)"
    if "settings req = Some st \<and> filename req \<noteq> [] \<and> pathExists w (filename req) \<and>
        processBySettings w jobId (filename req) st = Inr (src, job) \<and>
        printFile w src (printerName req) (js ''Print Job - '' @ filename req) (copiesOrOne (copies st)) = None"
    using that processBySettings_processing [of w jobId "filename req" st src job]
    by (simp add: printHandler_def Let_def setJob_def)
  have even: "\<forall>code msg srv'.
      printEvenHandler w jobId fname pr r n srv = (Rejected code msg, srv') \<longrightarrow> srv' = srv"
    using printEvenHandler_rejected by blast
  from general processing spooler even show ?thesis by blast
qed

text \<open>
  An unreadable file leaves the empty table empty; a dead spooler leaves the job in state
  \<open>processing\<close>.
\<close>

theorem failed_submission_leaves_job_processing_witness:
  "printHandler corruptWorld (js ''job-1'') duplexRequest emptyServer
     = (Rejected 500 (js ''Failed to submit print job''), emptyServer) \<and>
   (\<exists>job. status job = Processing \<and>
      printHandler deadSpoolerWorld (js ''job-1'') duplexRequest emptyServer
        = (Rejected 500 (js ''Failed to submit print job''),
           emptyServer \<lparr> printJobs := (printJobs emptyServer)(js ''job-1'' \<mapsto> job) \<rparr>)) \<and>
   (snd (printHandler deadSpoolerWorld (js ''job-1'') duplexRequest emptyServer) = emptyServer \<or>
    (\<exists>job. printJobs (snd (printHandler deadSpoolerWorld (js ''job-1'') duplexRequest emptyServer))
              = (printJobs emptyServer)(js ''job-1'' \<mapsto> job) \<and> status job = Processing))"
proof -
  have name: "js ''doc.pdf'' \<noteq> []" by (simp add: js_def)
  have h2: "settings duplexRequest = Some duplexRange \<and> filename duplexRequest \<noteq> [] \<and>
      pathExists corruptWorld (filename duplexRequest) \<and>
      processBySettings corruptWorld (js ''job-1'') (filename duplexRequest) duplexRange = Inl LoadFailed"
    by (simp add: duplexRequest_def duplexRange_def corruptWorld_def name processBySettings_def
          extractOddEvenPages_def)
  have ex: "extractOddEvenPages deadSpoolerWorld (js ''doc.pdf'') Odd (Some (js ''1-4'')) = Inr
              (save (pagesOf tenPages (filter odd (pagesToProcess (int (length tenPages)) (Some (js ''1-4''))))))"
    using extractOddEvenPages_pagesOf [of deadSpoolerWorld "js ''doc.pdf''" tenPages Odd "Some (js ''1-4'')"]
    by (simp add: deadSpoolerWorld_def)
  have h3: "settings duplexRequest = Some duplexRange \<and> filename duplexRequest \<noteq> [] \<and>
      pathExists deadSpoolerWorld (filename duplexRequest) \<and>
      processBySettings deadSpoolerWorld (js ''job-1'') (filename duplexRequest) duplexRange
        = Inr (ExtractedFile (save (pagesOf tenPages
                 (filter odd (pagesToProcess (int (length tenPages)) (Some (js ''1-4'')))))),
               \<lparr> id' = js ''job-1'', status = Processing,
                 message = Some (js ''Printing odd pages...''),
                 totalPages = None, currentStep = Some Odd \<rparr>) \<and>
      printFile deadSpoolerWorld
        (ExtractedFile (save (pagesOf tenPages
           (filter odd (pagesToProcess (int (length tenPages)) (Some (js ''1-4'')))))))
        (printerName duplexRequest) (js ''Print Job - '' @ filename duplexRequest)
        (copiesOrOne (copies duplexRange)) = None"
    unfolding duplexRequest_def duplexRange_def processBySettings_def
    by (simp add: ex name) (simp add: deadSpoolerWorld_def)
  note inst = failed_submission_leaves_job_processing
      [where req = duplexRequest and st = duplexRange and jobId = "js ''job-1''" and srv = emptyServer]
  from inst [where w = corruptWorld and e = LoadFailed, THEN conjunct2, THEN conjunct1] h2
  have w2: "printHandler corruptWorld (js ''job-1'') duplexRequest emptyServer
     = (Rejected 500 (js ''Failed to submit print job''), emptyServer)" by blast
  from inst [where w = deadSpoolerWorld, THEN conjunct2, THEN conjunct2, THEN conjunct1] h3
  have w3: "\<exists>job. status job = Processing \<and>
      printHandler deadSpoolerWorld (js ''job-1'') duplexRequest emptyServer
        = (Rejected 500 (js ''Failed to submit print job''),
           emptyServer \<lparr> printJobs := (printJobs emptyServer)(js ''job-1'' \<mapsto> job) \<rparr>)"
    by blast
  then obtain srv' where run: "printHandler deadSpoolerWorld (js ''job-1'') duplexRequest emptyServer
        = (Rejected 500 (js ''Failed to submit print job''), srv')" by blast
  from inst [where w = deadSpoolerWorld, THEN conjunct1] run
  have "srv' = emptyServer \<or>
    (\<exists>job. printJobs srv' = (printJobs emptyServer)(js ''job-1'' \<mapsto> job) \<and> status job = Processing)"
    by blast
  with run have w1: "snd (printHandler deadSpoolerWorld (js ''job-1'') duplexRequest emptyServer) = emptyServer \<or>
    (\<exists>job. printJobs (snd (printHandler deadSpoolerWorld (js ''job-1'') duplexRequest emptyServer))
              = (printJobs emptyServer)(js ''job-1'' \<mapsto> job) \<and> status job = Processing)"
    by simp
  from w1 w2 w3 show ?thesis by blast
qed

lemma ten_world_submit:
  "submitPrintJob tenWorld (js ''job-1'') (js ''doc.pdf'') (js ''office'') duplexRange emptyServer =
     (Accepted (js ''job-1'') 17
        \<lparr> id' = js ''job-1'', status = AwaitingEvenPages,
          message = Some (js ''Odd pages sent to printer. Please flip the paper and print even pages.''),
          totalPages = Some 10, currentStep = Some Even \<rparr>,
      \<lparr> printJobs = [js ''job-1'' \<mapsto>
           \<lparr> id' = js ''job-1'', status = AwaitingEvenPages,
             message = Some (js ''Odd pages sent to printer. Please flip the paper and print even pages.''),
             totalPages = Some 10, currentStep = Some Even \<rparr>],
        spooled =
          [\<lparr> document = ExtractedFile (save (pagesOf tenPages
                (filter odd (pagesToProcess (int (length tenPages)) (Some (js ''1-4'')))))),
             printer = js ''office'', jobName = js ''Print Job - '' @ js ''doc.pdf'',
             copiesSent = 1 \<rparr>] \<rparr>)"
proof -
  let ?req = "\<lparr> filename = js ''doc.pdf'', settings = Some duplexRange, printerName = js ''office'' \<rparr>"
  have ten: "int (length tenPages) = 10" by (simp add: tenPages_def)
  have "printHandler tenWorld (js ''job-1'') ?req emptyServer = (Accepted (js ''job-1'') 17
        \<lparr> id' = js ''job-1'', status = AwaitingEvenPages,
          message = Some (js ''Odd pages sent to printer. Please flip the paper and print even pages.''),
          totalPages = Some (int (length tenPages)), currentStep = Some Even \<rparr>,
      \<lparr> printJobs = (printJobs emptyServer)(js ''job-1'' \<mapsto>
           \<lparr> id' = js ''job-1'', status = AwaitingEvenPages,
             message = Some (js ''Odd pages sent to printer. Please flip the paper and print even pages.''),
             totalPages = Some (int (length tenPages)), currentStep = Some Even \<rparr>),
        spooled = spooled emptyServer @
          [\<lparr> document = ExtractedFile (save (pagesOf tenPages
                (filter odd (pagesToProcess (int (length tenPages)) (pageRange duplexRange))))),
             printer = printerName ?req, jobName = js ''Print Job - '' @ filename ?req,
             copiesSent = copiesOrOne (copies duplexRange) \<rparr>] \<rparr>)"
    by (rule printHandler_duplex) (simp_all add: duplexRange_def tenWorld_def js_def)
  then show ?thesis
    by (simp add: submitPrintJob_def ten emptyServer_def duplexRange_def copiesOrOne_def)
qed

text \<open>
  Claim C9. The handler of \<open>POST /api/print-even\<close> takes the page range from the resume
  request, and \<open>printEvenPages\<close>, the client call that sends the request, does not pass
  one. A duplex job for the pages \<open>"1-4"\<close> of ten therefore prints pages 1 and 3 and then,
  on resume, pages 2, 4, 6, 8 and 10; with the range of the submission in the request the
  second pass would be pages 2 and 4. The second pass is named
  \<open>Print Job - doc.pdf (Even Pages)\<close>.
\<close>

theorem even_pass_drops_submitted_range:
  "map printedContent
     (spooled (snd (printEvenPages tenWorld (js ''job-1'') (js ''doc.pdf'') (js ''office'') 1
        (snd (submitPrintJob tenWorld (js ''job-1'') (js ''doc.pdf'') (js ''office'')
                duplexRange emptyServer)))))
     = [[1, 3], [2, 4, 6, 8, 10]] \<and>
   map jobName
     (spooled (snd (printEvenPages tenWorld (js ''job-1'') (js ''doc.pdf'') (js ''office'') 1
        (snd (submitPrintJob tenWorld (js ''job-1'') (js ''doc.pdf'') (js ''office'')
                duplexRange emptyServer)))))
     = [js ''Print Job - doc.pdf'', js ''Print Job - doc.pdf (Even Pages)''] \<and>
   map printedContent
     (spooled (snd (printEvenHandler tenWorld (js ''job-1'') (js ''doc.pdf'') (js ''office'')
        (Some (js ''1-4'')) (Some 1)
        (snd (submitPrintJob tenWorld (js ''job-1'') (js ''doc.pdf'') (js ''office'')
                duplexRange emptyServer)))))
     = [[1, 3], [2, 4]]"
proof -
  define srv1 where "srv1 = snd (submitPrintJob tenWorld (js ''job-1'') (js ''doc.pdf'') (js ''office'')
                duplexRange emptyServer)"
  have jobs: "printJobs srv1 (js ''job-1'') = Some
           \<lparr> id' = js ''job-1'', status = AwaitingEvenPages,
             message = Some (js ''Odd pages sent to printer. Please flip the paper and print even pages.''),
             totalPages = Some 10, currentStep = Some Even \<rparr>"
    and sp: "spooled srv1 =
          [\<lparr> document = ExtractedFile (save (pagesOf tenPages
                (filter odd (pagesToProcess (int (length tenPages)) (Some (js ''1-4'')))))),
             printer = js ''office'', jobName = js ''Print Job - '' @ js ''doc.pdf'',
             copiesSent = 1 \<rparr>]"
    by (simp_all add: srv1_def ten_world_submit)
  have nonempty: "js ''job-1'' \<noteq> []" "js ''doc.pdf'' \<noteq> []" by (simp_all add: js_def)
  have resume: "spooled (snd (printEvenHandler tenWorld (js ''job-1'') (js ''doc.pdf'') (js ''office'')
                   r (Some 1) srv1))
      = spooled srv1 @
          [\<lparr> document = ExtractedFile
               (save (pagesOf tenPages (filter even (pagesToProcess (int (length tenPages)) r)))),
             printer = js ''office'',
             jobName = js ''Print Job - '' @ js ''doc.pdf'' @ js '' (Even Pages)'',
             copiesSent = copiesOrOne (Some 1) \<rparr>]" for r
    by (subst printEvenHandler_success [OF nonempty jobs, where pdfDoc = tenPages and cups = 17])
       (simp_all add: tenWorld_def)
  have names: "js ''Print Job - '' @ js ''doc.pdf'' = js ''Print Job - doc.pdf''"
    "js ''Print Job - '' @ js ''doc.pdf'' @ js '' (Even Pages)'' = js ''Print Job - doc.pdf (Even Pages)''"
    by (simp_all add: js_def)
  have a: "map printedContent (spooled (snd (printEvenPages tenWorld (js ''job-1'') (js ''doc.pdf'')
             (js ''office'') 1 srv1))) = [[1, 3], [2, 4, 6, 8, 10]]"
    by (simp add: printEvenPages_def resume sp printedContent_def odd_pass_1_4 even_pass_full)
  have b: "map jobName (spooled (snd (printEvenPages tenWorld (js ''job-1'') (js ''doc.pdf'')
             (js ''office'') 1 srv1)))
             = [js ''Print Job - doc.pdf'', js ''Print Job - doc.pdf (Even Pages)'']"
    by (simp add: printEvenPages_def resume sp names)
  have c: "map printedContent (spooled (snd (printEvenHandler tenWorld (js ''job-1'') (js ''doc.pdf'')
             (js ''office'') (Some (js ''1-4'')) (Some 1) srv1))) = [[1, 3], [2, 4]]"
    by (simp add: resume sp printedContent_def odd_pass_1_4 even_pass_1_4)
  from a b c show ?thesis unfolding srv1_def by blast
qed

end
